(* ===== verification/Prelude.thy ===== *)
theory Prelude
  imports Main "HOL-Library.AList" "HOL-Library.Multiset" "HOL-Library.Char_ord"
    "HOL-Library.List_Lexorder" "HOL-Library.Code_Target_Nat"
begin

text \<open>
  Shared vocabulary of the development: the types that stand for Go's own data
  (maps, results), the collections of simplification rules the components fill, and the
  generic lemmas on association lists and on sorting by a key that every component uses.

  A Go map is a list of key/value pairs with distinct keys. The order of the list is the
  order in which one run of the program ranges over the map: Go leaves that order open,
  so a theorem that holds for every list holds for every order.
\<close>

named_theorems go_simps "equations of the standard-library model"
named_theorems go_intros "closure and preservation rules of the components"

type_synonym ('k, 'v) gomap = "('k \<times> 'v) list"

abbreviation gomap_ok :: "('k, 'v) gomap \<Rightarrow> bool" where
  "gomap_ok m \<equiv> distinct (map fst m)"

abbreviation gomap_set :: "'k \<Rightarrow> 'v \<Rightarrow> ('k, 'v) gomap \<Rightarrow> ('k, 'v) gomap" where
  "gomap_set k v m \<equiv> AList.update k v m"

abbreviation gomap_delete :: "'k \<Rightarrow> ('k, 'v) gomap \<Rightarrow> ('k, 'v) gomap" where
  "gomap_delete k m \<equiv> AList.delete k m"

section \<open>Association lists\<close>

lemma map_of_delete_eq [simp]: "map_of (gomap_delete k m) k = None"
  by (simp add: delete_conv')

lemma map_of_delete_neq [simp]: "k' \<noteq> k \<Longrightarrow> map_of (gomap_delete k m) k' = map_of m k'"
  by (simp add: delete_conv')

lemma map_of_update_eq [simp]: "map_of (gomap_set k v m) k = Some v"
  by (simp add: update_conv')

lemma map_of_update_neq [simp]: "k' \<noteq> k \<Longrightarrow> map_of (gomap_set k v m) k' = map_of m k'"
  by (simp add: update_conv')

lemma dom_gomap_set [simp]: "dom (map_of (gomap_set k v m)) = insert k (dom (map_of m))"
  by (auto simp: update_conv')

lemma gomap_ok_update [simp, go_intros]: "gomap_ok m \<Longrightarrow> gomap_ok (gomap_set k v m)"
  by (rule distinct_update)

lemma gomap_ok_delete [simp, go_intros]: "gomap_ok m \<Longrightarrow> gomap_ok (gomap_delete k m)"
  by (rule distinct_delete)

lemma gomap_ok_filter [simp, go_intros]: "gomap_ok m \<Longrightarrow> gomap_ok (filter P m)"
  by (induction m) (auto simp: image_iff)

lemma map_of_filter_distinct:
  "gomap_ok m \<Longrightarrow>
   map_of (filter P m) k = (case map_of m k of None \<Rightarrow> None | Some v \<Rightarrow> if P (k, v) then Some v else None)"
proof (induction m)
  case Nil
  then show ?case by simp
next
  case (Cons kv m)
  obtain a b where kv: "kv = (a, b)" by (cases kv)
  have "map_of m a = None"
    using Cons.prems kv by (simp add: map_of_eq_None_iff)
  with Cons kv show ?case
    by auto
qed

lemma map_of_perm:
  assumes "gomap_ok m" and "mset m = mset m'"
  shows "map_of m = map_of m'"
proof -
  have "mset (map fst m) = mset (map fst m')"
    using assms(2) by simp
  with assms(1) have "gomap_ok m'"
    by (metis mset_eq_imp_distinct_iff)
  moreover have "set m = set m'"
    using assms(2) by (rule mset_eq_setD)
  ultimately show ?thesis
    using assms(1) by (metis map_of_inject_set)
qed

section \<open>Sorting by a key\<close>

text \<open>
  Go's \<^verbatim>\<open>sort.Slice\<close> is not stable, so its result is only determined up to the order of
  elements with equal keys. When the keys are distinct the sorted list is unique, which is why
  \<open>sort_key\<close> is a faithful model wherever the source sorts by a unique id.
\<close>

lemma sort_key_perm_unique:
  assumes "mset xs = mset ys" and "inj_on f (set xs)"
  shows "sort_key f xs = sort_key f ys"
  using assms by (intro sort_key_inj_key_eq) simp_all

lemma distinct_map_inj_on: "distinct (map f xs) \<Longrightarrow> inj_on f (set xs)"
  by (simp add: distinct_map)

section \<open>Lists\<close>

lemma dropWhile_length_le [simp]: "length (dropWhile P xs) \<le> length xs"
  by (induction xs) auto

lemma find_None_filter: "List.find P xs = None \<longleftrightarrow> filter P xs = []"
  by (induction xs) auto

lemma filter_eq_singleton_mem: "filter P xs = [x] \<Longrightarrow> x \<in> set xs \<and> P x"
  by (metis (mono_tags) filter_set list.set_intros(1) mem_Collect_eq set_filter)

lemma list_all2_in2: "list_all2 P xs ys \<Longrightarrow> y \<in> set ys \<Longrightarrow> \<exists>x \<in> set xs. P x y"
  by (induction rule: list_all2_induct) auto

section \<open>Results\<close>

text \<open>A loop that builds a list and returns at the first error.\<close>

fun mapE :: "('a \<Rightarrow> 'e + 'b) \<Rightarrow> 'a list \<Rightarrow> 'e + 'b list" where
  "mapE f [] = Inr []"
| "mapE f (x # xs) =
     (case f x of
        Inl e \<Rightarrow> Inl e
      | Inr y \<Rightarrow> (case mapE f xs of Inl e \<Rightarrow> Inl e | Inr ys \<Rightarrow> Inr (y # ys)))"

lemma mapE_Inr_iff: "mapE f xs = Inr ys \<longleftrightarrow> list_all2 (\<lambda>x y. f x = Inr y) xs ys"
proof (induction xs arbitrary: ys)
  case Nil
  then show ?case by auto
next
  case (Cons x xs)
  show ?case
  proof (cases "mapE f xs")
    case (Inl e)
    then have "\<not> list_all2 (\<lambda>x y. f x = Inr y) xs zs" for zs using Cons.IH [of zs] by simp
    with Inl show ?thesis by (auto simp: list_all2_Cons1 split: sum.split)
  next
    case (Inr zs)
    then have "list_all2 (\<lambda>x y. f x = Inr y) xs us \<longleftrightarrow> us = zs" for us using Cons.IH [of us] by auto
    with Inr show ?thesis by (auto simp: list_all2_Cons1 split: sum.split)
  qed
qed

lemma mapE_Inr_map:
  assumes "mapE f xs = Inr ys" and "\<And>x y. f x = Inr y \<Longrightarrow> g y = h x"
  shows "map g ys = map h xs"
  using assms(1) [unfolded mapE_Inr_iff] by (induction rule: list_all2_induct) (simp_all add: assms(2))

lemma mapE_error: "mapE f xs = Inl e \<Longrightarrow> \<exists>x \<in> set xs. f x = Inl e"
  by (induction xs) (auto split: sum.splits)

lemma mapE_ok: "(\<forall>x \<in> set xs. f x = Inr (g x)) \<Longrightarrow> mapE f xs = Inr (map g xs)"
  by (induction xs) auto

end
