(* ===== verification/Go_Strings.thy ===== *)
theory Go_Strings
  imports Prelude
begin

text \<open>
  The part of Go's standard library that works on strings and bytes, as far as the program
  uses it: \<^verbatim>\<open>strings\<close>, \<^verbatim>\<open>unicode/utf8\<close>, \<^verbatim>\<open>strconv\<close>, \<^verbatim>\<open>encoding/hex\<close> and
  \<^verbatim>\<open>encoding/base64\<close>. A Go string is a sequence of bytes, and so is a HOL \<open>string\<close>: each
  \<open>char\<close> is one byte, and a code point beyond ASCII is its UTF-8 bytes.
\<close>

section \<open>Package strings\<close>

definition HasPrefix :: "string \<Rightarrow> string \<Rightarrow> bool" where
  "HasPrefix s p \<longleftrightarrow> take (length p) s = p"

definition HasSuffix :: "string \<Rightarrow> string \<Rightarrow> bool" where
  "HasSuffix s p \<longleftrightarrow> length p \<le> length s \<and> drop (length s - length p) s = p"

definition TrimPrefix :: "string \<Rightarrow> string \<Rightarrow> string" where
  "TrimPrefix s p = (if HasPrefix s p then drop (length p) s else s)"

definition TrimSuffix :: "string \<Rightarrow> string \<Rightarrow> string" where
  "TrimSuffix s p = (if HasSuffix s p then take (length s - length p) s else s)"

fun Contains :: "string \<Rightarrow> string \<Rightarrow> bool" where
  "Contains [] sub = (sub = [])"
| "Contains (c # s) sub = (HasPrefix (c # s) sub \<or> Contains s sub)"

fun Join :: "string list \<Rightarrow> string \<Rightarrow> string" where
  "Join [] sep = []"
| "Join [x] sep = x"
| "Join (x # y # ys) sep = x @ sep @ Join (y # ys) sep"

definition TrimRight_char :: "char \<Rightarrow> string \<Rightarrow> string" where
  "TrimRight_char c s = rev (dropWhile (\<lambda>x. x = c) (rev s))"

abbreviation byte :: "char \<Rightarrow> nat" where
  "byte c \<equiv> of_char c"

definition ascii_lower :: "char \<Rightarrow> char" where
  "ascii_lower c = (if 65 \<le> byte c \<and> byte c \<le> 90 then char_of (byte c + 32) else c)"

definition ascii_upper :: "char \<Rightarrow> char" where
  "ascii_upper c = (if 97 \<le> byte c \<and> byte c \<le> 122 then char_of (byte c - 32) else c)"

text \<open>
  \<^verbatim>\<open>strings.EqualFold\<close> against a constant whose letters have no fold partner outside ASCII
  (that is, no \<open>k\<close> and no \<open>s\<close>): the only use is the scheme \<open>''Bearer ''\<close>.
\<close>

definition EqualFold_ascii :: "string \<Rightarrow> string \<Rightarrow> bool" where
  "EqualFold_ascii s t \<longleftrightarrow> map ascii_lower s = map ascii_lower t"

lemma HasPrefix_append [simp]: "HasPrefix (p @ s) p"
  by (simp add: HasPrefix_def)

lemma HasPrefix_iff: "HasPrefix s p \<longleftrightarrow> (\<exists>t. s = p @ t)"
  by (metis HasPrefix_append HasPrefix_def append_take_drop_id)

lemma HasSuffix_iff: "HasSuffix s p \<longleftrightarrow> (\<exists>t. s = t @ p)"
proof
  assume "HasSuffix s p"
  then show "\<exists>t. s = t @ p"
    unfolding HasSuffix_def by (metis append_take_drop_id)
qed (auto simp: HasSuffix_def)

lemma HasSuffix_append [simp]: "HasSuffix (t @ p) p"
  by (auto simp: HasSuffix_iff)

lemma TrimPrefix_append [simp]: "TrimPrefix (p @ s) p = s"
  by (simp add: TrimPrefix_def)

lemma TrimSuffix_append [simp]: "TrimSuffix (s @ p) p = s"
  by (simp add: TrimSuffix_def)

lemma Contains_iff: "Contains s sub \<longleftrightarrow> (\<exists>a b. s = a @ sub @ b)"
proof (induction s)
  case Nil
  then show ?case by auto
next
  case (Cons c s)
  have "(\<exists>a b. c # s = a @ sub @ b) \<longleftrightarrow> (\<exists>b. c # s = sub @ b) \<or> (\<exists>a b. s = a @ sub @ b)"
    by (metis append_Cons append_Nil neq_Nil_conv list.sel(3))
  with Cons show ?case by (simp add: HasPrefix_iff)
qed

lemma Join_Cons: "Join (x # xs) sep = x @ (if xs = [] then [] else sep @ Join xs sep)"
  by (cases xs) auto

section \<open>Package unicode/utf8\<close>

definition RuneError :: nat where
  "RuneError = 0xFFFD"

definition is_cont :: "nat \<Rightarrow> bool" where
  "is_cont b \<longleftrightarrow> 0x80 \<le> b \<and> b \<le> 0xBF"

text \<open>The range of the second byte and the length of the sequence, by first byte.\<close>

definition utf8_first :: "nat \<Rightarrow> (nat \<times> nat \<times> nat) option" where
  "utf8_first b =
     (if 0xC2 \<le> b \<and> b \<le> 0xDF then Some (2, 0x80, 0xBF)
      else if b = 0xE0 then Some (3, 0xA0, 0xBF)
      else if b = 0xED then Some (3, 0x80, 0x9F)
      else if 0xE1 \<le> b \<and> b \<le> 0xEF then Some (3, 0x80, 0xBF)
      else if b = 0xF0 then Some (4, 0x90, 0xBF)
      else if 0xF1 \<le> b \<and> b \<le> 0xF3 then Some (4, 0x80, 0xBF)
      else if b = 0xF4 then Some (4, 0x80, 0x8F)
      else None)"

text \<open>\<^verbatim>\<open>utf8.DecodeRune\<close>: the first code point and the number of bytes it takes.\<close>

definition DecodeRune :: "string \<Rightarrow> nat \<times> nat" where
  "DecodeRune s =
     (case map byte s of
        [] \<Rightarrow> (RuneError, 0)
      | b0 # bs \<Rightarrow>
          if b0 < 0x80 then (b0, 1)
          else (case utf8_first b0 of
                  None \<Rightarrow> (RuneError, 1)
                | Some (n, lo, hi) \<Rightarrow>
                    (case bs of
                       b1 # bs1 \<Rightarrow>
                         if length bs + 1 < n \<or> b1 < lo \<or> hi < b1 then (RuneError, 1)
                         else if n = 2 then ((b0 - 0xC0) * 64 + (b1 - 0x80), 2)
                         else (case bs1 of
                                 b2 # bs2 \<Rightarrow>
                                   if \<not> is_cont b2 then (RuneError, 1)
                                   else if n = 3
                                   then ((b0 - 0xE0) * 4096 + (b1 - 0x80) * 64 + (b2 - 0x80), 3)
                                   else (case bs2 of
                                           b3 # _ \<Rightarrow>
                                             if \<not> is_cont b3 then (RuneError, 1)
                                             else ((b0 - 0xF0) * 262144 + (b1 - 0x80) * 4096
                                                   + (b2 - 0x80) * 64 + (b3 - 0x80), 4)
                                         | [] \<Rightarrow> (RuneError, 1))
                               | [] \<Rightarrow> (RuneError, 1))
                     | [] \<Rightarrow> (RuneError, 1))))"

text \<open>\<^verbatim>\<open>utf8.EncodeRune\<close>; surrogates and values beyond U+10FFFF become U+FFFD.\<close>

definition EncodeRune :: "nat \<Rightarrow> string" where
  "EncodeRune r =
     (if r < 0x80 then [char_of r]
      else if r < 0x800 then [char_of (0xC0 + r div 64), char_of (0x80 + r mod 64)]
      else if 0x10FFFF < r \<or> (0xD800 \<le> r \<and> r \<le> 0xDFFF)
      then [char_of (0xEF::nat), char_of (0xBF::nat), char_of (0xBD::nat)]
      else if r < 0x10000
      then [char_of (0xE0 + r div 4096), char_of (0x80 + r div 64 mod 64), char_of (0x80 + r mod 64)]
      else [char_of (0xF0 + r div 262144), char_of (0x80 + r div 4096 mod 64),
            char_of (0x80 + r div 64 mod 64), char_of (0x80 + r mod 64)])"

lemma DecodeRune_size:
  assumes "s \<noteq> []"
  shows "0 < snd (DecodeRune s)"
  using assms
  by (cases s) (auto simp: DecodeRune_def Let_def split: list.splits option.splits prod.splits if_splits)

text \<open>\<^verbatim>\<open>for _, c := range s\<close>: the code points of a string, each with the bytes it came from.\<close>

function runes :: "string \<Rightarrow> (nat \<times> string) list" where
  "runes s =
     (if s = [] then []
      else (let (r, n) = DecodeRune s in (r, take n s) # runes (drop n s)))"
  by pat_completeness auto
termination
proof (relation "measure length", simp)
  fix s :: string and x xa y
  assume "s \<noteq> []" and "x = DecodeRune s" and "(xa, y) = x"
  then have "0 < y" using DecodeRune_size [of s] by (metis snd_conv)
  with \<open>s \<noteq> []\<close> show "(drop y s, s) \<in> measure length" by simp
qed

declare runes.simps [simp del]

lemma runes_Nil [simp]: "runes [] = []"
  by (simp add: runes.simps)

lemma runes_step: "s \<noteq> [] \<Longrightarrow> DecodeRune s = (r, n) \<Longrightarrow> runes s = (r, take n s) # runes (drop n s)"
  by (simp add: runes.simps [of s])

lemma runes_concat: "concat (map snd (runes s)) = s"
proof (induction s rule: runes.induct)
  case (1 s)
  then show ?case
    by (cases "DecodeRune s") (simp add: runes.simps [of s])
qed

text \<open>An ASCII byte is a code point of its own; every other code point is at least 0x80.\<close>

lemma DecodeRune_ascii: "byte c < (0x80::nat) \<Longrightarrow> DecodeRune (c # s) = (byte c, 1)"
  by (simp add: DecodeRune_def)

lemma utf8_first_range: "utf8_first b = Some (n, lo, hi) \<Longrightarrow> 0xC2 \<le> b \<and> b \<le> 0xF4"
  by (auto simp: utf8_first_def split: if_splits)

text \<open>Lower bounds of the three multi-byte forms, given the ranges of their first two bytes.\<close>

lemma utf8_form2: "(0xC2::nat) \<le> b0 \<Longrightarrow> 0x80 \<le> (b0 - 0xC0) * 64 + x"
  using mult_le_mono1 [of 2 "b0 - 0xC0" 64] by simp

lemma utf8_form3:
  assumes "(0xE1::nat) \<le> b0 \<or> 0xA0 \<le> b1"
  shows "0x80 \<le> (b0 - 0xE0) * 4096 + (b1 - 0x80) * 64 + x"
  using assms mult_le_mono1 [of 1 "b0 - 0xE0" 4096] mult_le_mono1 [of 2 "b1 - 0x80" 64] by auto

lemma utf8_form4:
  assumes "(0xF1::nat) \<le> b0 \<or> 0x90 \<le> b1"
  shows "0x80 \<le> (b0 - 0xF0) * 262144 + (b1 - 0x80) * 4096 + y + x"
  using assms mult_le_mono1 [of 1 "b0 - 0xF0" 262144] mult_le_mono1 [of 1 "b1 - 0x80" 4096] by auto

lemma utf8_first_form2: "utf8_first b = Some (2, lo, hi) \<Longrightarrow> 0xC2 \<le> b"
  by (auto simp: utf8_first_def split: if_splits)

lemma utf8_first_form3: "utf8_first b = Some (3, lo, hi) \<Longrightarrow> lo \<le> b1 \<Longrightarrow> 0xE1 \<le> b \<or> 0xA0 \<le> b1"
  by (auto simp: utf8_first_def split: if_splits)

lemma utf8_first_form4:
  "utf8_first b = Some (n, lo, hi) \<Longrightarrow> n \<noteq> 2 \<Longrightarrow> n \<noteq> 3 \<Longrightarrow> lo \<le> b1 \<Longrightarrow> 0xF1 \<le> b \<or> 0x90 \<le> b1"
  by (auto simp: utf8_first_def split: if_splits)

lemma DecodeRune_nonascii:
  assumes "0x80 \<le> (byte c :: nat)"
  shows "0x80 \<le> fst (DecodeRune (c # s))"
proof -
  have err: "0x80 \<le> RuneError" by (simp add: RuneError_def)
  show ?thesis
    using assms err
    by (auto simp: DecodeRune_def not_less
        intro: utf8_form2 [OF utf8_first_form2] utf8_form3 [OF utf8_first_form3]
          utf8_form4 [OF utf8_first_form4] simp del: One_nat_def
        split: list.split option.split prod.split)
qed

text \<open>
  A test of every code point against a range of printable ASCII is a test of every byte,
  because a byte that is not ASCII always ends up in a code point of at least 0x80.
\<close>

lemma runes_ascii_iff:
  assumes "hi < 0x80"
  shows "(\<forall>x \<in> set (runes s). lo \<le> fst x \<and> fst x \<le> hi) \<longleftrightarrow> (\<forall>c \<in> set s. lo \<le> byte c \<and> byte c \<le> hi)"
proof (induction s rule: runes.induct)
  case (1 s)
  show ?case
  proof (cases s)
    case Nil
    then show ?thesis by simp
  next
    case (Cons c cs)
    obtain r n where rn: "DecodeRune s = (r, n)" by (cases "DecodeRune s")
    have split: "set (runes s) = insert (r, take n s) (set (runes (drop n s)))"
      using Cons runes_step [OF _ rn] by simp
    show ?thesis
    proof (cases "byte c < (0x80::nat)")
      case True
      then have "r = byte c" and "n = 1"
        using rn Cons DecodeRune_ascii [of c cs] by simp_all
      with 1 [OF _ rn [symmetric] refl] split Cons show ?thesis by simp
    next
      case False
      then have "hi < r"
        using rn Cons DecodeRune_nonascii [of c cs] assms by simp
      with split Cons False assms show ?thesis by auto
    qed
  qed
qed

section \<open>White space\<close>

text \<open>\<^verbatim>\<open>unicode.IsSpace\<close>, used by \<^verbatim>\<open>strings.TrimSpace\<close> and \<^verbatim>\<open>strings.Fields\<close>.\<close>

definition IsSpace :: "nat \<Rightarrow> bool" where
  "IsSpace r \<longleftrightarrow>
     (9 \<le> r \<and> r \<le> 13) \<or> r = 0x20 \<or> r = 0x85 \<or> r = 0xA0 \<or> r = 0x1680
     \<or> (0x2000 \<le> r \<and> r \<le> 0x200A) \<or> r = 0x2028 \<or> r = 0x2029 \<or> r = 0x202F \<or> r = 0x205F \<or> r = 0x3000"

definition TrimSpace :: "string \<Rightarrow> string" where
  "TrimSpace s =
     (let blank = (\<lambda>x. IsSpace (fst x)); rs = dropWhile blank (runes s)
      in concat (map snd (rev (dropWhile blank (rev rs)))))"

fun fields_of :: "string \<Rightarrow> (nat \<times> string) list \<Rightarrow> string list" where
  "fields_of acc [] = (if acc = [] then [] else [acc])"
| "fields_of acc ((r, bs) # rs) =
     (if IsSpace r then (if acc = [] then fields_of [] rs else acc # fields_of [] rs)
      else fields_of (acc @ bs) rs)"

definition Fields :: "string \<Rightarrow> string list" where
  "Fields s = fields_of [] (runes s)"

section \<open>Package strconv\<close>

definition digit_char :: "nat \<Rightarrow> char" where
  "digit_char d = char_of (48 + d)"

fun FormatNat :: "nat \<Rightarrow> string" where
  "FormatNat n = (if n < 10 then [digit_char n] else FormatNat (n div 10) @ [digit_char (n mod 10)])"

declare FormatNat.simps [simp del]

definition FormatInt :: "int \<Rightarrow> string" where
  "FormatInt i = (if i < 0 then CHR ''-'' # FormatNat (nat (- i)) else FormatNat (nat i))"

definition FormatBool :: "bool \<Rightarrow> string" where
  "FormatBool b = (if b then ''true'' else ''false'')"

definition is_digit :: "char \<Rightarrow> bool" where
  "is_digit c \<longleftrightarrow> 48 \<le> byte c \<and> byte c \<le> (57::nat)"

definition digit_val :: "char \<Rightarrow> nat" where
  "digit_val c = byte c - 48"

definition dec_val :: "string \<Rightarrow> nat" where
  "dec_val s = foldl (\<lambda>acc c. acc * 10 + digit_val c) 0 s"

lemma byte_char_of [simp]: "n < 256 \<Longrightarrow> byte (char_of (n::nat)) = n"
  by (simp add: of_char_of)

lemma digit_char_digit [simp]: "d < 10 \<Longrightarrow> is_digit (digit_char d) \<and> digit_val (digit_char d) = d"
  by (simp add: digit_char_def is_digit_def digit_val_def)

lemma dec_val_snoc [simp]: "dec_val (s @ [c]) = dec_val s * 10 + digit_val c"
  by (simp add: dec_val_def)

lemma FormatNat_digits: "list_all is_digit (FormatNat n) \<and> FormatNat n \<noteq> []"
  by (induction n rule: FormatNat.induct) (subst (1 2) FormatNat.simps, auto)

lemma dec_val_FormatNat [simp]: "dec_val (FormatNat n) = n"
proof (induction n rule: FormatNat.induct)
  case (1 n)
  then show ?case
    by (cases "n < 10") (simp_all add: FormatNat.simps [of n] dec_val_def)
qed

lemma FormatNat_inject: "FormatNat m = FormatNat n \<Longrightarrow> m = n"
  by (metis dec_val_FormatNat)

section \<open>Package encoding/hex\<close>

definition hex_digit :: "nat \<Rightarrow> char" where
  "hex_digit d = (if d < 10 then char_of (48 + d) else char_of (87 + d))"

definition hex_EncodeToString :: "string \<Rightarrow> string" where
  "hex_EncodeToString bs = concat (map (\<lambda>c. [hex_digit (byte c div 16), hex_digit (byte c mod 16)]) bs)"

lemma hex_digit_inject: "m < 16 \<Longrightarrow> n < 16 \<Longrightarrow> hex_digit m = hex_digit n \<Longrightarrow> m = n"
proof -
  assume "m < 16" "n < 16" and eq: "hex_digit m = hex_digit n"
  then have "byte (hex_digit m) = (byte (hex_digit n) :: nat)" by simp
  with \<open>m < 16\<close> \<open>n < 16\<close> show "m = n"
    by (auto simp: hex_digit_def split: if_splits)
qed

lemma hex_length [simp]: "length (hex_EncodeToString bs) = 2 * length bs"
  by (induction bs) (auto simp: hex_EncodeToString_def)

lemma hex_inject: "hex_EncodeToString a = hex_EncodeToString b \<Longrightarrow> a = b"
proof (induction a arbitrary: b)
  case Nil
  then show ?case by (cases b) (auto simp: hex_EncodeToString_def)
next
  case (Cons x a)
  then obtain y b' where b: "b = y # b'"
    by (cases b) (auto simp: hex_EncodeToString_def)
  from Cons.prems b have "hex_digit (byte x div 16) = hex_digit (byte y div 16)"
    and "hex_digit (byte x mod 16) = hex_digit (byte y mod 16)"
    and "hex_EncodeToString a = hex_EncodeToString b'"
    by (auto simp: hex_EncodeToString_def)
  moreover have "byte x div 16 < (16::nat)" and "byte y div 16 < (16::nat)"
    by (simp_all add: less_mult_imp_div_less)
  ultimately have "byte x div 16 = (byte y div 16 :: nat)" and "byte x mod 16 = (byte y mod 16 :: nat)"
    and "a = b'"
    using Cons.IH hex_digit_inject [of "byte x div 16" "byte y div 16"]
      hex_digit_inject [of "byte x mod 16" "byte y mod 16"] by simp_all
  then have "byte x = (byte y :: nat)"
    by (metis div_mult_mod_eq)
  with \<open>a = b'\<close> b show ?case by simp
qed

section \<open>Package encoding/base64\<close>

definition b64_alphabet :: string where
  "b64_alphabet = ''ABCDEFGHIJKLMNOPQRSTUVWXYZabcdefghijklmnopqrstuvwxyz0123456789+/''"

definition b64_char :: "nat \<Rightarrow> char" where
  "b64_char n = b64_alphabet ! n"

text \<open>\<^verbatim>\<open>base64.StdEncoding.EncodeToString\<close>: three bytes to four letters, padded with \<open>=\<close>.\<close>

fun b64_encode :: "nat list \<Rightarrow> string" where
  "b64_encode [] = []"
| "b64_encode [a] = [b64_char (a div 4), b64_char (a mod 4 * 16), CHR ''='', CHR ''='']"
| "b64_encode [a, b] =
     [b64_char (a div 4), b64_char (a mod 4 * 16 + b div 16), b64_char (b mod 16 * 4), CHR ''='']"
| "b64_encode (a # b # c # r) =
     b64_char (a div 4) # b64_char (a mod 4 * 16 + b div 16) # b64_char (b mod 16 * 4 + c div 64)
     # b64_char (c mod 64) # b64_encode r"

definition base64_EncodeToString :: "string \<Rightarrow> string" where
  "base64_EncodeToString s = b64_encode (map byte s)"

text \<open>The decoder a receiver of the header applies; it is not called by the program.\<close>

fun b64_index :: "char \<Rightarrow> string \<Rightarrow> nat" where
  "b64_index c [] = 0"
| "b64_index c (x # xs) = (if c = x then 0 else Suc (b64_index c xs))"

definition b64_val :: "char \<Rightarrow> nat" where
  "b64_val c = b64_index c b64_alphabet"

fun b64_decode :: "string \<Rightarrow> nat list" where
  "b64_decode (w # x # y # z # r) =
     (if z = CHR ''='' then
        (if y = CHR ''='' then [b64_val w * 4 + b64_val x div 16]
         else [b64_val w * 4 + b64_val x div 16, b64_val x mod 16 * 16 + b64_val y div 4])
      else (b64_val w * 4 + b64_val x div 16) # (b64_val x mod 16 * 16 + b64_val y div 4)
           # (b64_val y mod 4 * 64 + b64_val z) # b64_decode r)"
| "b64_decode _ = []"

definition base64_DecodeString :: "string \<Rightarrow> string" where
  "base64_DecodeString s = map char_of (b64_decode s)"

lemma length_b64_alphabet [simp]: "length b64_alphabet = 64"
  by (simp add: b64_alphabet_def)

lemma distinct_b64_alphabet: "distinct b64_alphabet"
  by (simp add: b64_alphabet_def)

lemma b64_index_nth: "distinct xs \<Longrightarrow> n < length xs \<Longrightarrow> b64_index (xs ! n) xs = n"
  by (induction xs arbitrary: n) (auto simp: less_Suc_eq_0_disj)

lemma b64_val_char [simp]: "n < 64 \<Longrightarrow> b64_val (b64_char n) = n"
  by (simp add: b64_val_def b64_char_def b64_index_nth distinct_b64_alphabet)

lemma b64_char_in: "n < 64 \<Longrightarrow> b64_char n \<in> set b64_alphabet"
  by (simp add: b64_char_def)

lemma b64_alphabet_printable: "\<forall>c \<in> set b64_alphabet. 43 \<le> (byte c :: nat) \<and> byte c \<le> (122::nat) \<and> byte c \<noteq> (61::nat)"
  by (simp add: b64_alphabet_def)

lemma b64_char_neq_pad [simp]: "n < 64 \<Longrightarrow> b64_char n \<noteq> CHR ''=''"
  using b64_char_in [of n] b64_alphabet_printable by fastforce

lemma b64_sextets:
  "a < 256 \<Longrightarrow> a div 4 < (64::nat)" "a mod 4 * 16 < (64::nat)" "b < 256 \<Longrightarrow> a mod 4 * 16 + b div 16 < (64::nat)"
  "b mod 16 * 4 < (64::nat)" "c < 256 \<Longrightarrow> b mod 16 * 4 + c div 64 < (64::nat)" "c mod 64 < (64::nat)"
  by linarith+

lemma b64_octets:
  fixes a b c :: nat
  shows "a div 4 * 4 + a mod 4 * 16 div 16 = a"
    and "b < 256 \<Longrightarrow> a div 4 * 4 + (a mod 4 * 16 + b div 16) div 16 = a"
    and "b < 256 \<Longrightarrow> (a mod 4 * 16 + b div 16) mod 16 * 16 + b mod 16 * 4 div 4 = b"
    and "b < 256 \<Longrightarrow> c < 256 \<Longrightarrow>
      (a mod 4 * 16 + b div 16) mod 16 * 16 + (b mod 16 * 4 + c div 64) div 4 = b"
    and "c < 256 \<Longrightarrow> (b mod 16 * 4 + c div 64) mod 4 * 64 + c mod 64 = c"
  using less_mult_imp_div_less [of b 16 16] less_mult_imp_div_less [of c 4 64] by simp_all

lemma b64_decode_encode: "(\<forall>b \<in> set bs. b < 256) \<Longrightarrow> b64_decode (b64_encode bs) = bs"
proof (induction bs rule: b64_encode.induct)
  case (2 a)
  then have "a div 4 < 64" "a mod 4 * 16 < 64" by (simp_all add: b64_sextets)
  then show ?case using b64_octets(1) [of a] by (simp del: mult_div_mod_eq)
next
  case (3 a b)
  then have "a div 4 < 64" "a mod 4 * 16 + b div 16 < 64" "b mod 16 * 4 < 64" "b < 256"
    by (simp_all add: b64_sextets)
  then show ?case using b64_octets(2) [of b a] b64_octets(3) [of b a]
    by (simp del: mult_div_mod_eq div_mult_self3 div_mult_self1 div_mult_self2 div_mult_self4 nonzero_mult_div_cancel_right)
next
  case (4 a b c r)
  then have "a div 4 < 64" "a mod 4 * 16 + b div 16 < 64" "b mod 16 * 4 + c div 64 < 64" "c mod 64 < 64"
    and "b < 256" "c < 256"
    by (simp_all add: b64_sextets)
  with 4 show ?case using b64_octets(2) [of b a] b64_octets(4) [of b c a] b64_octets(5) [of c b]
    by (simp del: mult_div_mod_eq div_mult_self3 div_mult_self1 div_mult_self2 div_mult_self4 mod_mult_self1 mod_mult_self2 mod_mult_self3 mod_mult_self4 nonzero_mult_div_cancel_right)
qed simp

lemma base64_roundtrip [simp]: "base64_DecodeString (base64_EncodeToString s) = s"
  by (simp add: base64_DecodeString_def base64_EncodeToString_def b64_decode_encode comp_def)

lemma b64_char_printable: "n < 64 \<Longrightarrow> 0x21 \<le> (byte (b64_char n) :: nat) \<and> byte (b64_char n) \<le> (0x7E::nat)"
  using b64_char_in [of n] b64_alphabet_printable by fastforce

lemma b64_encode_printable:
  "(\<forall>b \<in> set bs. b < 256) \<Longrightarrow> \<forall>c \<in> set (b64_encode bs). 0x21 \<le> (byte c :: nat) \<and> byte c \<le> (0x7E::nat)"
  by (induction bs rule: b64_encode.induct)
    (simp_all add: b64_char_printable [THEN conjunct1] b64_char_printable [THEN conjunct2] b64_sextets)

section \<open>Quoting\<close>

text \<open>
  \<^verbatim>\<open>strconv.Quote\<close>, the format \<^verbatim>\<open>%q\<close>. Which code points beyond ASCII are printable is a table of the
  Unicode standard; it is the parameter \<open>print\<close>.
\<close>

fun hex_digits :: "nat \<Rightarrow> nat \<Rightarrow> string" where
  "hex_digits 0 n = []"
| "hex_digits (Suc k) n = hex_digits k (n div 16) @ [hex_digit (n mod 16)]"

definition quote_rune :: "(nat \<Rightarrow> bool) \<Rightarrow> nat \<times> string \<Rightarrow> string" where
  "quote_rune print x =
     (case x of (r, bs) \<Rightarrow>
        if length bs = 1 \<and> r = RuneError then [CHR 0x5C, CHR ''x''] @ hex_digits 2 (byte (hd bs))
        else if r = 0x22 \<or> r = 0x5C then CHR 0x5C # bs
        else if (if r < 0x80 then 0x20 \<le> r \<and> r \<le> 0x7E else print r) then bs
        else if r = 7 then [CHR 0x5C, CHR ''a''] else if r = 8 then [CHR 0x5C, CHR ''b'']
        else if r = 12 then [CHR 0x5C, CHR ''f''] else if r = 10 then [CHR 0x5C, CHR ''n'']
        else if r = 13 then [CHR 0x5C, CHR ''r''] else if r = 9 then [CHR 0x5C, CHR ''t'']
        else if r = 11 then [CHR 0x5C, CHR ''v'']
        else if r < 0x20 \<or> r = 0x7F then [CHR 0x5C, CHR ''x''] @ hex_digits 2 r
        else if r < 0x10000 then [CHR 0x5C, CHR ''u''] @ hex_digits 4 r
        else [CHR 0x5C, CHR ''U''] @ hex_digits 8 r)"

definition Quote :: "(nat \<Rightarrow> bool) \<Rightarrow> string \<Rightarrow> string" where
  "Quote print s = [CHR 0x22] @ concat (map (quote_rune print) (runes s)) @ [CHR 0x22]"

end
