(* ===== verification/Go_Json.thy ===== *)
theory Go_Json
  imports Go_Strings "HOL-Library.Log_Nat"
begin

text \<open>
  Go's \<^verbatim>\<open>encoding/json\<close> as the program uses it. A JSON text is parsed into a value of type
  \<open>json\<close>; a \<^verbatim>\<open>json.RawMessage\<close> (the text of one value, kept as it is) is the value it denotes,
  and an empty raw message is \<open>None\<close>. Objects keep the order and the duplicates of their text,
  numbers keep their literal. On top of that are the decoders of \<^verbatim>\<open>json.Unmarshal\<close> for the Go
  types of the program and the encoder of maps, which sorts the keys.
\<close>

datatype json =
    JNull
  | JBool bool
  | JNum string
  | JStr string
  | JArr "json list"
  | JObj "(string \<times> json) list"

type_synonym RawMessage = "json option"

section \<open>Tokens\<close>

datatype token = TLBrace | TRBrace | TLBrack | TRBrack | TColon | TComma | TLit json

definition json_ws :: "char \<Rightarrow> bool" where
  "json_ws c \<longleftrightarrow> c = CHR '' '' \<or> c = CHR 0x09 \<or> c = CHR 0x0A \<or> c = CHR 0x0D"

definition is_hex :: "char \<Rightarrow> bool" where
  "is_hex c \<longleftrightarrow> is_digit c \<or> (97 \<le> byte c \<and> byte c \<le> (102::nat)) \<or> (65 \<le> byte c \<and> byte c \<le> (70::nat))"

definition hex_val :: "char \<Rightarrow> nat" where
  "hex_val c = (if is_digit c then byte c - 48 else if 97 \<le> (byte c :: nat) then byte c - 87 else byte c - 55)"

definition hex4 :: "char \<Rightarrow> char \<Rightarrow> char \<Rightarrow> char \<Rightarrow> nat" where
  "hex4 a b c d = hex_val a * 4096 + hex_val b * 256 + hex_val c * 16 + hex_val d"

text \<open>The body of a string literal up to its closing quote, and what follows it.\<close>

fun scan_str :: "string \<Rightarrow> (string \<times> string) option" where
  "scan_str [] = None"
| "scan_str (c # s) =
     (if c = CHR 0x22 then Some ([], s)
      else if c = CHR 0x5C then
        (case s of
           [] \<Rightarrow> None
         | e # s1 \<Rightarrow>
             if e \<in> set [CHR ''b'', CHR ''f'', CHR ''n'', CHR ''r'', CHR ''t'', CHR 0x5C, CHR ''/'', CHR 0x22]
             then map_option (\<lambda>(b, r). (c # e # b, r)) (scan_str s1)
             else if e = CHR ''u'' then
               (case s1 of
                  h1 # h2 # h3 # h4 # s2 \<Rightarrow>
                    if is_hex h1 \<and> is_hex h2 \<and> is_hex h3 \<and> is_hex h4
                    then map_option (\<lambda>(b, r). (c # e # h1 # h2 # h3 # h4 # b, r)) (scan_str s2)
                    else None
                | _ \<Rightarrow> None)
             else None)
      else if byte c < (0x20::nat) then None
      else map_option (\<lambda>(b, r). (c # b, r)) (scan_str s))"

text \<open>
  \<^verbatim>\<open>unquote\<close>: escapes are replaced, a surrogate pair becomes one code point, an unpaired
  surrogate and a byte that is not UTF-8 become U+FFFD.
\<close>

definition esc_char :: "char \<Rightarrow> char" where
  "esc_char e =
     (if e = CHR ''b'' then CHR 0x08 else if e = CHR ''f'' then CHR 0x0C
      else if e = CHR ''n'' then CHR 0x0A else if e = CHR ''r'' then CHR 0x0D
      else if e = CHR ''t'' then CHR 0x09 else e)"

definition is_surrogate :: "nat \<Rightarrow> bool" where
  "is_surrogate r \<longleftrightarrow> 0xD800 \<le> r \<and> r < 0xE000"

definition utf16_pair :: "nat \<Rightarrow> nat \<Rightarrow> nat option" where
  "utf16_pair r1 r2 =
     (if 0xD800 \<le> r1 \<and> r1 < 0xDC00 \<and> 0xDC00 \<le> r2 \<and> r2 < 0xE000
      then Some ((r1 - 0xD800) * 1024 + (r2 - 0xDC00) + 0x10000) else None)"

function unquote :: "string \<Rightarrow> string" where
  "unquote s =
     (case s of
        [] \<Rightarrow> []
      | c # s1 \<Rightarrow>
          if c = CHR 0x5C then
            (case s1 of
               [] \<Rightarrow> []
             | e # s2 \<Rightarrow>
                 if e = CHR ''u'' then
                   (case s2 of
                      a # b # d # f # s3 \<Rightarrow>
                        (let r = hex4 a b d f in
                         if is_surrogate r then
                           (case s3 of
                              x # y # a2 # b2 # d2 # f2 # s4 \<Rightarrow>
                                (if x = CHR 0x5C \<and> y = CHR ''u'' \<and> utf16_pair r (hex4 a2 b2 d2 f2) \<noteq> None
                                 then EncodeRune (the (utf16_pair r (hex4 a2 b2 d2 f2))) @ unquote s4
                                 else EncodeRune RuneError @ unquote s3)
                            | _ \<Rightarrow> EncodeRune RuneError @ unquote s3)
                         else EncodeRune r @ unquote s3)
                    | _ \<Rightarrow> [])
                 else esc_char e # unquote s2)
          else if byte c < (0x80::nat) then c # unquote s1
          else EncodeRune (fst (DecodeRune s)) @ unquote (drop (snd (DecodeRune s)) s))"
  by pat_completeness auto
termination
  by (relation "measure length") (auto simp: DecodeRune_size)

declare unquote.simps [simp del]

text \<open>The number grammar: \<open>-? (0 | [1-9][0-9]*) (\. [0-9]+)? ([eE] [+-]? [0-9]+)?\<close>.\<close>

definition scan_frac :: "string \<Rightarrow> (string \<times> string) option" where
  "scan_frac s =
     (case s of
        c # t \<Rightarrow>
          if c = CHR ''.'' then
            (let ds = takeWhile is_digit t in
             if ds = [] then None else Some (c # ds, dropWhile is_digit t))
          else Some ([], s)
      | [] \<Rightarrow> Some ([], []))"

definition scan_exp :: "string \<Rightarrow> (string \<times> string) option" where
  "scan_exp s =
     (case s of
        c # t \<Rightarrow>
          if c = CHR ''e'' \<or> c = CHR ''E'' then
            (let sg = (case t of x # _ \<Rightarrow> if x = CHR ''+'' \<or> x = CHR ''-'' then [x] else [] | [] \<Rightarrow> []);
                 u = drop (length sg) t;
                 ds = takeWhile is_digit u
             in if ds = [] then None else Some (c # sg @ ds, dropWhile is_digit u))
          else Some ([], s)
      | [] \<Rightarrow> Some ([], []))"

definition scan_int :: "string \<Rightarrow> (string \<times> string) option" where
  "scan_int s =
     (case s of
        c # t \<Rightarrow>
          if c = CHR ''0'' then Some ([c], t)
          else if is_digit c then Some (takeWhile is_digit s, dropWhile is_digit s)
          else None
      | [] \<Rightarrow> None)"

definition scan_num :: "string \<Rightarrow> (string \<times> string) option" where
  "scan_num s =
     (let sg = (case s of c # _ \<Rightarrow> if c = CHR ''-'' then [c] else [] | [] \<Rightarrow> []) in
      case scan_int (drop (length sg) s) of
        None \<Rightarrow> None
      | Some (i, s1) \<Rightarrow>
          (case scan_frac s1 of
             None \<Rightarrow> None
           | Some (f, s2) \<Rightarrow>
               (case scan_exp s2 of
                  None \<Rightarrow> None
                | Some (e, s3) \<Rightarrow> Some (sg @ i @ f @ e, s3))))"

text \<open>One token and the rest of the text.\<close>

definition next_token :: "string \<Rightarrow> (token \<times> string) option" where
  "next_token s =
     (case s of
        [] \<Rightarrow> None
      | c # t \<Rightarrow>
          if c = CHR ''{'' then Some (TLBrace, t)
          else if c = CHR ''}'' then Some (TRBrace, t)
          else if c = CHR ''['' then Some (TLBrack, t)
          else if c = CHR '']'' then Some (TRBrack, t)
          else if c = CHR '':'' then Some (TColon, t)
          else if c = CHR '','' then Some (TComma, t)
          else if c = CHR 0x22 then map_option (\<lambda>(b, r). (TLit (JStr (unquote b)), r)) (scan_str t)
          else if HasPrefix s ''null'' then Some (TLit JNull, drop 4 s)
          else if HasPrefix s ''true'' then Some (TLit (JBool True), drop 4 s)
          else if HasPrefix s ''false'' then Some (TLit (JBool False), drop 5 s)
          else map_option (\<lambda>(n, r). (TLit (JNum n), r)) (scan_num s))"

lemma scan_str_length: "scan_str s = Some (b, r) \<Longrightarrow> length r < length s"
proof (induction s arbitrary: b r rule: scan_str.induct)
  case (2 c s)
  then show ?case
    by (fastforce split: if_splits list.splits)
qed simp

lemma scan_int_length: "scan_int s = Some (i, r) \<Longrightarrow> length r < length s"
  by (auto simp: scan_int_def less_Suc_eq_le split: list.splits if_splits)

lemma scan_frac_length: "scan_frac s = Some (f, r) \<Longrightarrow> length r \<le> length s"
  by (auto simp: scan_frac_def Let_def le_SucI split: list.splits if_splits)

lemma scan_exp_length: "scan_exp s = Some (e, r) \<Longrightarrow> length r \<le> length s"
  by (auto simp: scan_exp_def Let_def split: list.splits if_splits
      intro: le_trans [OF dropWhile_length_le])

lemma scan_num_length:
  assumes "scan_num s = Some (n, r)"
  shows "length r < length s"
proof -
  define sg where "sg = (case s of c # _ \<Rightarrow> if c = CHR ''-'' then [c] else [] | [] \<Rightarrow> [])"
  obtain i s1 f s2 e where "scan_int (drop (length sg) s) = Some (i, s1)"
    and "scan_frac s1 = Some (f, s2)" and "scan_exp s2 = Some (e, r)"
    using assms unfolding scan_num_def sg_def Let_def by (auto split: option.splits)
  then have "length s1 < length (drop (length sg) s)" "length s2 \<le> length s1" "length r \<le> length s2"
    by (auto dest: scan_int_length scan_frac_length scan_exp_length)
  then show ?thesis by simp
qed

lemma next_token_length: "next_token s = Some (t, r) \<Longrightarrow> length r < length s"
  by (auto simp: next_token_def less_Suc_eq_le split: list.splits if_splits
      dest: scan_str_length scan_num_length)

function tokenize :: "string \<Rightarrow> token list option" where
  "tokenize s =
     (let u = dropWhile json_ws s in
      if u = [] then Some []
      else case next_token u of
             None \<Rightarrow> None
           | Some (t, r) \<Rightarrow> map_option ((#) t) (tokenize r))"
  by pat_completeness auto
termination
proof (relation "measure length", simp)
  fix s :: string and u x x2 t r
  assume "u = dropWhile json_ws s" and "next_token u = Some x2" and "(t, r) = x2"
  then have "length r < length (dropWhile json_ws s)" by (metis next_token_length)
  also have "\<dots> \<le> length s" by simp
  finally show "(r, s) \<in> measure length" by simp
qed

declare tokenize.simps [simp del]

section \<open>The parser\<close>

text \<open>
  Go validates a text with a push-down automaton; the parser here is the same automaton. The
  stack holds the enclosing arrays and objects, innermost first, each with the elements read so
  far; the mode says what may come next. Nesting is limited to 10000, as in the library.
\<close>

datatype frame = FArr "json list" | FObj "(string \<times> json) list" string

datatype mode =
    MValue            \<comment> \<open>a value\<close>
  | MValueOrEnd       \<comment> \<open>after \<open>[\<close>: a value or \<open>]\<close>\<close>
  | MKey              \<comment> \<open>after a comma in an object: a key\<close>
  | MKeyOrEnd         \<comment> \<open>after an opening brace: a key or a closing brace\<close>
  | MColon            \<comment> \<open>after a key\<close>
  | MAfter            \<comment> \<open>after an element: a comma or the end of the array or object\<close>
  | MDone json        \<comment> \<open>the whole text has been read\<close>

definition maxNestingDepth :: nat where
  "maxNestingDepth = 10000"

fun value_done :: "json \<Rightarrow> frame list \<Rightarrow> mode \<times> frame list" where
  "value_done v [] = (MDone v, [])"
| "value_done v (FArr xs # st) = (MAfter, FArr (xs @ [v]) # st)"
| "value_done v (FObj kvs k # st) = (MAfter, FObj (kvs @ [(k, v)]) k # st)"

definition push_frame :: "frame \<Rightarrow> mode \<Rightarrow> frame list \<Rightarrow> (mode \<times> frame list) option" where
  "push_frame f m st = (if length st < maxNestingDepth then Some (m, f # st) else None)"

definition begin_value :: "token \<Rightarrow> frame list \<Rightarrow> (mode \<times> frame list) option" where
  "begin_value t st =
     (case t of
        TLit v \<Rightarrow> Some (value_done v st)
      | TLBrack \<Rightarrow> push_frame (FArr []) MValueOrEnd st
      | TLBrace \<Rightarrow> push_frame (FObj [] []) MKeyOrEnd st
      | _ \<Rightarrow> None)"

fun json_step :: "token \<Rightarrow> mode \<times> frame list \<Rightarrow> (mode \<times> frame list) option" where
  "json_step t (MValue, st) = begin_value t st"
| "json_step t (MValueOrEnd, st) =
     (case (t, st) of
        (TRBrack, FArr xs # st') \<Rightarrow> Some (value_done (JArr xs) st')
      | _ \<Rightarrow> begin_value t st)"
| "json_step t (MKey, FObj kvs k # st) =
     (case t of TLit (JStr k') \<Rightarrow> Some (MColon, FObj kvs k' # st) | _ \<Rightarrow> None)"
| "json_step t (MKeyOrEnd, FObj kvs k # st) =
     (case t of
        TLit (JStr k') \<Rightarrow> Some (MColon, FObj kvs k' # st)
      | TRBrace \<Rightarrow> Some (value_done (JObj kvs) st)
      | _ \<Rightarrow> None)"
| "json_step t (MColon, st) = (if t = TColon then Some (MValue, st) else None)"
| "json_step t (MAfter, FArr xs # st) =
     (case t of
        TComma \<Rightarrow> Some (MValue, FArr xs # st)
      | TRBrack \<Rightarrow> Some (value_done (JArr xs) st)
      | _ \<Rightarrow> None)"
| "json_step t (MAfter, FObj kvs k # st) =
     (case t of
        TComma \<Rightarrow> Some (MKey, FObj kvs k # st)
      | TRBrace \<Rightarrow> Some (value_done (JObj kvs) st)
      | _ \<Rightarrow> None)"
| "json_step t (_, st) = None"

fun json_run :: "token list \<Rightarrow> mode \<times> frame list \<Rightarrow> json option" where
  "json_run [] (m, st) = (case m of MDone v \<Rightarrow> if st = [] then Some v else None | _ \<Rightarrow> None)"
| "json_run (t # ts) s = (case json_step t s of None \<Rightarrow> None | Some s' \<Rightarrow> json_run ts s')"

definition json_parse :: "string \<Rightarrow> json option" where
  "json_parse s = (case tokenize s of None \<Rightarrow> None | Some ts \<Rightarrow> json_run ts (MValue, []))"

text \<open>
  The parser is complete: the token sequence of every value whose nesting is within the limit
  is read back as that value.
\<close>

fun json_toks :: "json \<Rightarrow> token list" and elem_toks :: "json list \<Rightarrow> token list"
  and member_toks :: "(string \<times> json) list \<Rightarrow> token list" where
  "json_toks (JArr xs) = TLBrack # (case xs of [] \<Rightarrow> [TRBrack] | y # ys \<Rightarrow> json_toks y @ elem_toks ys)"
| "json_toks (JObj kvs) =
     TLBrace # (case kvs of [] \<Rightarrow> [TRBrace]
                | (k, v) # r \<Rightarrow> TLit (JStr k) # TColon # json_toks v @ member_toks r)"
| "json_toks v = [TLit v]"
| "elem_toks [] = [TRBrack]"
| "elem_toks (x # xs) = TComma # json_toks x @ elem_toks xs"
| "member_toks [] = [TRBrace]"
| "member_toks ((k, v) # r) = TComma # TLit (JStr k) # TColon # json_toks v @ member_toks r"

fun json_depth :: "json \<Rightarrow> nat" where
  "json_depth (JArr xs) = Suc (fold max (map json_depth xs) 0)"
| "json_depth (JObj kvs) = Suc (fold max (map (\<lambda>kv. json_depth (snd kv)) kvs) 0)"
| "json_depth v = 0"

lemma fold_max_le: "n + fold max xs a \<le> m \<longleftrightarrow> n + a \<le> m \<and> (\<forall>x \<in> set xs. n + x \<le> (m::nat))"
  by (induction xs arbitrary: a) auto

lemma json_depth_le:
  "n + json_depth (JArr xs) \<le> m \<longleftrightarrow> n < m \<and> (\<forall>x \<in> set xs. Suc n + json_depth x \<le> m)"
  "n + json_depth (JObj kvs) \<le> m \<longleftrightarrow> n < m \<and> (\<forall>kv \<in> set kvs. Suc n + json_depth (snd kv) \<le> m)"
  using fold_max_le [of "Suc n" "map json_depth xs" 0 m]
    fold_max_le [of "Suc n" "map (\<lambda>kv. json_depth (snd kv)) kvs" 0 m]
  by (auto simp: Suc_le_eq)

lemma json_step_MValueOrEnd:
  "t \<noteq> TRBrack \<Longrightarrow> json_step t (MValueOrEnd, st) = json_step t (MValue, st)"
  by (cases t) (auto split: list.splits frame.splits)

lemma json_toks_head: "\<exists>t ts. json_toks v = t # ts \<and> t \<noteq> TRBrack"
  by (cases v) auto

lemma json_run_MValueOrEnd: "json_run (json_toks v @ ts) (MValueOrEnd, st) = json_run (json_toks v @ ts) (MValue, st)"
  using json_toks_head [of v] json_step_MValueOrEnd by fastforce

lemma json_run_complete:
  "length st + json_depth v \<le> maxNestingDepth \<Longrightarrow>
     json_run (json_toks v @ ts) (MValue, st) = json_run ts (value_done v st)"
  "\<forall>x \<in> set xs. Suc (length st) + json_depth x \<le> maxNestingDepth \<Longrightarrow>
     json_run (elem_toks xs @ ts) (MAfter, FArr acc # st) = json_run ts (value_done (JArr (acc @ xs)) st)"
  "\<forall>kv \<in> set kvs. Suc (length st) + json_depth (snd kv) \<le> maxNestingDepth \<Longrightarrow>
     json_run (member_toks kvs @ ts) (MAfter, FObj macc k # st) = json_run ts (value_done (JObj (macc @ kvs)) st)"
proof (induction v and xs and kvs arbitrary: st ts and acc st ts and macc k st ts
    rule: json_toks_elem_toks_member_toks.induct)
  case (1 xs)
  from json_depth_le(1) [THEN iffD1, OF "1.prems"]
  have "length st < maxNestingDepth" and "\<forall>x \<in> set xs. Suc (length st) + json_depth x \<le> maxNestingDepth"
    by blast+
  with 1 show ?case
    by (cases xs) (auto simp: begin_value_def push_frame_def json_run_MValueOrEnd simp del: json_depth.simps)
next
  case (2 kvs)
  from json_depth_le(2) [THEN iffD1, OF "2.prems"]
  have "length st < maxNestingDepth"
    and "\<forall>kv \<in> set kvs. Suc (length st) + json_depth (snd kv) \<le> maxNestingDepth"
    by blast+
  with 2 show ?case
    by (cases kvs) (auto simp: begin_value_def push_frame_def simp del: json_depth.simps split: prod.splits)
qed (auto simp: begin_value_def)

text \<open>
  \<^verbatim>\<open>json.Decoder.Decode\<close> reads one value from a stream and leaves what follows it; an array or
  object is complete at its closing bracket.
\<close>

function json_first :: "string \<Rightarrow> mode \<times> frame list \<Rightarrow> json option" where
  "json_first s st =
     (case next_token (dropWhile json_ws s) of
        None \<Rightarrow> None
      | Some (t, r) \<Rightarrow>
          (case json_step t st of
             None \<Rightarrow> None
           | Some (m, fs) \<Rightarrow> (case m of MDone v \<Rightarrow> Some v | _ \<Rightarrow> json_first r (m, fs))))"
  by pat_completeness auto
termination
  by (relation "measure (\<lambda>(s, _). length s)")
    (auto dest!: next_token_length intro: less_le_trans [OF _ dropWhile_length_le])

declare json_first.simps [simp del]

definition json_decode_first :: "string \<Rightarrow> json option" where
  "json_decode_first s = json_first s (MValue, [])"

section \<open>Decoding into Go values\<close>

text \<open>
  \<^verbatim>\<open>map[string]json.RawMessage\<close>: a later duplicate of a key replaces the earlier one, \<open>null\<close>
  gives the nil map (\<open>Inr None\<close>), and any other value is a type error that leaves the target as
  it was.
\<close>

definition obj_map :: "(string \<times> json) list \<Rightarrow> (string, json) gomap" where
  "obj_map kvs = fold (\<lambda>(k, v) m. gomap_set k v m) kvs []"

definition Unmarshal_map :: "json \<Rightarrow> string + (string, json) gomap option" where
  "Unmarshal_map v =
     (case v of
        JObj kvs \<Rightarrow> Inr (Some (obj_map kvs))
      | JNull \<Rightarrow> Inr None
      | _ \<Rightarrow> Inl ''json: cannot unmarshal into map'')"

text \<open>A nil map reads as an empty one.\<close>

definition nilmap :: "('k, 'v) gomap option \<Rightarrow> ('k, 'v) gomap" where
  "nilmap m = (case m of None \<Rightarrow> [] | Some m' \<Rightarrow> m')"

text \<open>A \<^verbatim>\<open>string\<close> that starts out empty: \<open>null\<close> leaves it alone.\<close>

definition Unmarshal_string :: "json \<Rightarrow> string + string" where
  "Unmarshal_string v =
     (case v of
        JStr s \<Rightarrow> Inr s
      | JNull \<Rightarrow> Inr []
      | _ \<Rightarrow> Inl ''json: cannot unmarshal into string'')"

text \<open>
  A \<^verbatim>\<open>[]string\<close> whose error the caller ignores: an element that is not a string is left at the
  empty string and the decoder goes on; a value that is not an array leaves the nil slice.
\<close>

definition Unmarshal_strings_partial :: "json \<Rightarrow> string list" where
  "Unmarshal_strings_partial v =
     (case v of
        JArr xs \<Rightarrow> map (\<lambda>x. case x of JStr s \<Rightarrow> s | _ \<Rightarrow> []) xs
      | _ \<Rightarrow> [])"

text \<open>
  Struct fields. A member belongs to a field when the names agree after folding: ASCII letters
  to upper case, and the two code points outside ASCII that fold to ASCII letters (U+017F to S,
  U+212A to K). Members are stored in order, so the last one counts.
\<close>

fun json_fold :: "string \<Rightarrow> string" where
  "json_fold (a # b # c # s) =
     (if a = CHR 0xC5 \<and> b = CHR 0xBF then CHR ''S'' # json_fold (c # s)
      else if a = CHR 0xE2 \<and> b = CHR 0x84 \<and> c = CHR 0xAA then CHR ''K'' # json_fold s
      else ascii_upper a # json_fold (b # c # s))"
| "json_fold [a, b] =
     (if a = CHR 0xC5 \<and> b = CHR 0xBF then ''S'' else ascii_upper a # json_fold [b])"
| "json_fold [a] = [ascii_upper a]"
| "json_fold [] = []"

definition field_members :: "string \<Rightarrow> (string \<times> json) list \<Rightarrow> json list" where
  "field_members name kvs = map snd (filter (\<lambda>kv. json_fold (fst kv) = json_fold name) kvs)"

text \<open>A \<^verbatim>\<open>json.RawMessage\<close> field takes the last member, \<open>null\<close> included.\<close>

definition raw_field :: "string \<Rightarrow> (string \<times> json) list \<Rightarrow> RawMessage" where
  "raw_field name kvs = (let vs = field_members name kvs in if vs = [] then None else Some (last vs))"

text \<open>A \<^verbatim>\<open>string\<close> field: \<open>None\<close> when some member has another type, which is an error.\<close>

definition string_field :: "string \<Rightarrow> (string \<times> json) list \<Rightarrow> string option" where
  "string_field name kvs =
     foldl (\<lambda>acc v. case v of
                      JStr s \<Rightarrow> map_option (\<lambda>_. s) acc
                    | JNull \<Rightarrow> acc
                    | _ \<Rightarrow> None) (Some []) (field_members name kvs)"

section \<open>Encoding maps\<close>

text \<open>\<^verbatim>\<open>json.Marshal\<close> writes the members of a map in the order of their keys.\<close>

definition Marshal_map :: "(string, json) gomap \<Rightarrow> json" where
  "Marshal_map m = JObj (sort_key fst m)"

definition Marshal_strings :: "string list \<Rightarrow> json" where
  "Marshal_strings ss = JArr (map JStr ss)"

lemma gomap_ok_obj_map_aux: "gomap_ok m \<Longrightarrow> gomap_ok (fold (\<lambda>(k, v) m. gomap_set k v m) kvs m)"
  by (induction kvs arbitrary: m) auto

lemma gomap_ok_obj_map [simp]: "gomap_ok (obj_map kvs)"
  by (simp add: obj_map_def gomap_ok_obj_map_aux)

lemma map_of_obj_map_aux:
  "map_of (fold (\<lambda>(k, v) m. gomap_set k v m) kvs m) = map_of m ++ map_of (rev kvs)"
proof (induction kvs arbitrary: m)
  case (Cons kv kvs)
  then show ?case
    by (cases kv) (simp add: update_conv' map_add_def fun_eq_iff split: option.split)
qed simp

lemma map_of_obj_map: "map_of (obj_map kvs) = map_of (rev kvs)"
  by (simp add: obj_map_def map_of_obj_map_aux)

lemma obj_map_snoc_aux:
  "k \<notin> fst ` set m \<Longrightarrow> gomap_set k v m = m @ [(k, v)]"
  by (induction m) auto

lemma obj_map_distinct_aux:
  "gomap_ok kvs \<Longrightarrow> fst ` set kvs \<inter> fst ` set m = {} \<Longrightarrow>
   fold (\<lambda>(k, v) m. gomap_set k v m) kvs m = m @ kvs"
proof (induction kvs arbitrary: m)
  case (Cons kv kvs)
  obtain k v where kv: "kv = (k, v)" by (cases kv)
  with Cons.prems have "gomap_set k v m = m @ [(k, v)]" by (simp add: obj_map_snoc_aux)
  moreover have "fold (\<lambda>(k, v) m. gomap_set k v m) kvs (m @ [(k, v)]) = (m @ [(k, v)]) @ kvs"
    using Cons.prems kv by (intro Cons.IH) auto
  ultimately show ?case using kv by simp
qed simp

lemma obj_map_distinct: "gomap_ok kvs \<Longrightarrow> obj_map kvs = kvs"
  by (simp add: obj_map_def obj_map_distinct_aux)

lemma gomap_ok_sort_key: "gomap_ok (sort_key f m) = gomap_ok m"
  by (metis mset_eq_imp_distinct_iff mset_map mset_sort)

lemma map_of_sort_key: "gomap_ok m \<Longrightarrow> map_of (sort_key f m) = map_of m"
  by (rule map_of_perm) (simp_all add: gomap_ok_sort_key)

text \<open>Decoding what was encoded gives the map back, up to the order of its keys.\<close>

lemma Unmarshal_Marshal_map:
  "gomap_ok m \<Longrightarrow> Unmarshal_map (Marshal_map m) = Inr (Some (sort_key fst m))"
  by (simp add: Unmarshal_map_def Marshal_map_def obj_map_distinct gomap_ok_sort_key)

end
