(* ===== verification/Go_Float.thy ===== *)
theory Go_Float
  imports Complex_Main Go_Json "HOL-Library.Log_Nat"
begin

text \<open>
  JSON numbers as Go reads them into an \<^verbatim>\<open>any\<close>: a \<^verbatim>\<open>float64\<close>, that is, the literal rounded to
  the nearest double (ties to even), and the conversions between \<^verbatim>\<open>float64\<close> and \<^verbatim>\<open>int64\<close>. A
  double is the rational number it denotes. Go leaves the conversion of an out-of-range double
  to \<^verbatim>\<open>int64\<close> to the implementation; the model gives the value of amd64, \<open>-2^63\<close>.
\<close>

definition round_half_even :: "int \<Rightarrow> int \<Rightarrow> int" where
  "round_half_even n d =
     (let m = n div d; r = n mod d
      in if d < 2 * r \<or> (2 * r = d \<and> odd m) then m + 1 else m)"

text \<open>\<open>x * 2^e\<close> for an integer exponent.\<close>

definition scale2 :: "int \<Rightarrow> int \<Rightarrow> rat" where
  "scale2 x e = (if 0 \<le> e then of_int (x * 2 ^ nat e) else of_int x / 2 ^ nat (- e))"

text \<open>The exponent of the unit in the last place of the double nearest to \<open>n / d\<close>.\<close>

definition f64_exp :: "int \<Rightarrow> int \<Rightarrow> int" where
  "f64_exp n d =
     (let k = bitlen n - bitlen d;
          ge = (if 0 \<le> k then d * 2 ^ nat k \<le> n else d \<le> n * 2 ^ nat (- k));
          l = (if ge then k else k - 1)
      in max (l - 52) (- 1074))"

definition f64_round :: "rat \<Rightarrow> rat option" where
  "f64_round q =
     (case quotient_of q of (a, d) \<Rightarrow>
        let n = \<bar>a\<bar> in
        if n = 0 then Some 0
        else let e = f64_exp n d;
                 m = (if 0 \<le> e then round_half_even n (d * 2 ^ nat e)
                      else round_half_even (n * 2 ^ nat (- e)) d);
                 v = scale2 m e
             in if 2 ^ 1024 \<le> v then None else Some (if a < 0 then - v else v))"

text \<open>\<^verbatim>\<open>int64(f)\<close>: truncation towards zero.\<close>

definition int64_of_f64 :: "rat \<Rightarrow> int" where
  "int64_of_f64 v =
     (let i = (if v < 0 then - \<lfloor>- v\<rfloor> else \<lfloor>v\<rfloor>)
      in if - (2 ^ 63) \<le> i \<and> i < 2 ^ 63 then i else - (2 ^ 63))"

text \<open>The rational value of a JSON number literal.\<close>

definition literal_value :: "string \<Rightarrow> rat" where
  "literal_value lit =
     (let neg = HasPrefix lit ''-'';
          s0 = (if neg then tl lit else lit);
          ip = takeWhile is_digit s0;
          s1 = dropWhile is_digit s0;
          fp = (if HasPrefix s1 ''.'' then takeWhile is_digit (tl s1) else []);
          s2 = (if HasPrefix s1 ''.'' then dropWhile is_digit (tl s1) else s1);
          ep = tl s2;
          en = HasPrefix ep ''-'';
          ed = (if en \<or> HasPrefix ep ''+'' then tl ep else ep);
          ex = (if s2 = [] then 0 else if en then - int (dec_val ed) else int (dec_val ed)) - int (length fp);
          m = int (dec_val (ip @ fp));
          v = (if 0 \<le> ex then of_int (m * 10 ^ nat ex) else of_int m / 10 ^ nat (- ex))
      in if neg then - v else v)"

definition ParseFloat64 :: "string \<Rightarrow> rat option" where
  "ParseFloat64 lit = f64_round (literal_value lit)"

lemma round_half_even_exact: "0 < d \<Longrightarrow> round_half_even (x * d) d = x"
  by (simp add: round_half_even_def)

lemma scale2_neg: "e < 0 \<Longrightarrow> scale2 (n * 2 ^ nat (- e)) e = of_int n"
  by (simp add: scale2_def)

lemma bitlen_pow_le: "0 < n \<Longrightarrow> 2 ^ nat (bitlen n - 1) \<le> n \<and> n < 2 ^ nat (bitlen n)"
  using bitlen_bounds [of n] by simp

text \<open>Integers of up to 53 bits are doubles.\<close>

lemma f64_exp_int:
  assumes "0 < n"
  shows "f64_exp n 1 = bitlen n - 53"
proof -
  have "1 \<le> bitlen n" using assms bitlen_nonneg [of n]
    by (metis bitlen_eq_zero_iff le_less not_le zless_add1_eq add_0 int_one_le_iff_zero_less)
  moreover have "bitlen 1 = (1::int)" by (simp add: bitlen_def floorlog_def)
  ultimately show ?thesis
    using bitlen_pow_le [OF assms] by (simp add: f64_exp_def)
qed

lemma f64_round_pos_int:
  assumes "0 < n" and "n \<le> 2 ^ 53"
  shows "\<exists>e m. f64_exp n 1 = e \<and> m = (if 0 \<le> e then round_half_even n (1 * 2 ^ nat e)
            else round_half_even (n * 2 ^ nat (- e)) 1) \<and> scale2 m e = of_int n"
proof (cases "n = 2 ^ 53")
  case True
  have "bitlen (2 ^ 53) = (54::int)"
    using bitlen_pow2 [of 1 53] by (simp add: bitlen_def floorlog_def)
  with True have "f64_exp n 1 = 1" using assms(1) by (simp add: f64_exp_int)
  with True show ?thesis by (simp add: round_half_even_def scale2_def)
next
  case False
  with assms have "n < 2 ^ 53" by simp
  then have "bitlen n \<le> 53" using assms by (simp add: bitlen_le_iff_power)
  then have e: "f64_exp n 1 \<le> 0" using assms(1) by (simp add: f64_exp_int)
  show ?thesis
  proof (cases "f64_exp n 1 = 0")
    case True
    then show ?thesis by (simp add: round_half_even_def scale2_def)
  next
    case False
    with e show ?thesis
      using round_half_even_exact [of 1 "n * 2 ^ nat (- f64_exp n 1)"] by (simp add: scale2_neg)
  qed
qed

lemma f64_round_int:
  assumes "\<bar>n\<bar> \<le> 2 ^ 53"
  shows "f64_round (of_int n) = Some (of_int n)"
proof (cases "n = 0")
  case True
  then show ?thesis by (simp add: f64_round_def)
next
  case False
  then have "0 < \<bar>n\<bar>" by simp
  from f64_round_pos_int [OF this assms] obtain e m where em: "f64_exp \<bar>n\<bar> 1 = e"
    "m = (if 0 \<le> e then round_half_even \<bar>n\<bar> (1 * 2 ^ nat e) else round_half_even (\<bar>n\<bar> * 2 ^ nat (- e)) 1)"
    "scale2 m e = of_int \<bar>n\<bar>" by blast
  have "(of_int \<bar>n\<bar> :: rat) \<le> of_int (2 ^ 53)" using assms by (simp only: of_int_le_iff)
  also have "\<dots> < 2 ^ 1024" by simp
  finally have "\<not> 2 ^ 1024 \<le> (of_int \<bar>n\<bar> :: rat)" by simp
  with em False show ?thesis
    by (auto simp: f64_round_def Let_def abs_if)
qed

lemma int64_of_f64_int: "- (2 ^ 63) \<le> n \<Longrightarrow> n < 2 ^ 63 \<Longrightarrow> int64_of_f64 (of_int n) = n"
  by (simp add: int64_of_f64_def)

end
