(* ===== verification/Config.thy ===== *)
theory Config
  imports Go_Strings
begin

text \<open>
  Configuration (\<^verbatim>\<open>internal/config/config.go\<close>): the configuration tree, the defaults, the expansion
  of \<open>${VAR}\<close> references and the validation that fails fast. The YAML decoder is a third-party
  package and a parameter of \<open>Load\<close>, as is the file system.
\<close>

section \<open>The configuration tree\<close>

record ServerConfig =
  Listen :: string
  Path :: string
  ExternalURL :: string

record ObservabilityConfig =
  MetricsListen :: string
  MetricsPath :: string

type_synonym AuthMode = string

definition AuthModeJWKS :: AuthMode where "AuthModeJWKS = ''jwks''"
definition AuthModeStatic :: AuthMode where "AuthModeStatic = ''static''"
definition AuthModeInsecure :: AuthMode where "AuthModeInsecure = ''insecure''"

record AuthConfig =
  Mode :: AuthMode
  GroupsClaim :: string
  Issuer :: string
  Audience :: string
  AdditionalAudiences :: "string list"
  ScopesSupported :: "string list"
  JWKSURL :: string
  HMACSecret :: string
  PublicKeyPEMFile :: string

record TenantConfig =
  tc_ID :: string
  tc_Groups :: "string list"
  tc_Credential :: string
  tc_Headers :: "(string, string) gomap"

record BackendConfig =
  bc_Name :: string
  bc_URL :: string
  bc_Headers :: "(string, string) gomap"
  bc_Credential :: string
  bc_CredentialHeader :: string
  bc_CredentialScheme :: "string option"
  bc_ProtocolVersion :: string
  bc_Tenants :: "TenantConfig list"

definition ProtocolVersionStateful :: string where
  "ProtocolVersionStateful = ''2025-03-26''"

definition ProtocolVersionStateless :: string where
  "ProtocolVersionStateless = ''2026-07-28''"

record Config =
  Server :: ServerConfig
  Auth :: AuthConfig
  Backends :: "BackendConfig list"
  Observability :: ObservabilityConfig

datatype config_error =
    ReadConfig string
  | ParseConfig string
  | UnsetInBackendCredential string string      \<comment> \<open>backend, variable\<close>
  | UnsetInBackendHeader string string string   \<comment> \<open>backend, header, variable\<close>
  | UnsetInTenantCredential string string string
  | UnsetInTenantHeader string string string string
  | JWKSNeedsURLOrIssuer
  | StaticNeedsExactlyOneKey
  | UnknownMode string
  | NoBackends
  | BackendNameRequired nat
  | DuplicateBackendName string
  | BackendURLRequired string
  | BadProtocolVersion string string
  | NoTenants string
  | TenantIDRequired string nat
  | DuplicateTenantID string string string       \<comment> \<open>tenant, owner, backend\<close>
  | NoGroups string string

section \<open>Defaults\<close>

definition or_default :: "string \<Rightarrow> string \<Rightarrow> string" where
  "or_default d s = (if s = [] then d else s)"

definition default_backend :: "BackendConfig \<Rightarrow> BackendConfig" where
  "default_backend b =
     b\<lparr>bc_CredentialHeader := or_default ''Authorization'' (bc_CredentialHeader b),
       bc_CredentialScheme := (case bc_CredentialScheme b of None \<Rightarrow> Some ''Bearer'' | Some s \<Rightarrow> Some s),
       bc_ProtocolVersion := or_default ProtocolVersionStateful (bc_ProtocolVersion b)\<rparr>"

definition applyDefaults :: "Config \<Rightarrow> Config" where
  "applyDefaults c =
     c\<lparr>Server := (Server c)\<lparr>Listen := or_default '':8080'' (Listen (Server c)),
                            Path := or_default ''/mcp'' (Path (Server c))\<rparr>,
       Auth := (Auth c)\<lparr>GroupsClaim := or_default ''groups'' (GroupsClaim (Auth c))\<rparr>,
       Backends := map default_backend (Backends c),
       Observability := (Observability c)\<lparr>MetricsListen := or_default '':9090'' (MetricsListen (Observability c)),
                                          MetricsPath := or_default ''/metrics'' (MetricsPath (Observability c))\<rparr>\<rparr>"

section \<open>References to environment variables\<close>

definition word_byte :: "char \<Rightarrow> bool" where
  "word_byte c \<longleftrightarrow> is_digit c \<or> (65 \<le> byte c \<and> byte c \<le> (90::nat))
     \<or> (97 \<le> byte c \<and> byte c \<le> (122::nat)) \<or> c = CHR ''_''"

text \<open>
  The regular expression of \<^verbatim>\<open>envRef\<close> at the start of a text: the variable's name and what
  follows the closing brace.
\<close>

definition envRef :: "string \<Rightarrow> (string \<times> string) option" where
  "envRef s =
     (if HasPrefix s ''${'' then
        (let t = drop 2 s; name = takeWhile word_byte t; r = dropWhile word_byte t
         in if name \<noteq> [] \<and> \<not> is_digit (hd name) \<and> HasPrefix r ''}'' then Some (name, tl r) else None)
      else None)"

lemma envRef_length: "envRef s = Some (name, r) \<Longrightarrow> length r < length s"
proof -
  assume a: "envRef s = Some (name, r)"
  then have "r = tl (dropWhile word_byte (drop 2 s))" and "HasPrefix s ''${''"
    by (auto simp: envRef_def Let_def split: if_splits)
  moreover from \<open>HasPrefix s ''${''\<close> have "2 \<le> length s"
    by (auto simp: HasPrefix_iff)
  moreover have "length (dropWhile word_byte (drop 2 s)) \<le> length (drop 2 s)"
    by (rule dropWhile_length_le)
  ultimately show "length r < length s"
    by (simp add: less_eq_Suc_le Suc_diff_le)
qed

text \<open>
  \<^verbatim>\<open>ReplaceAllStringFunc\<close>: every leftmost match is replaced by the variable's value, and the
  last unset variable is remembered.
\<close>

function replaceRefs :: "(string \<Rightarrow> string option) \<Rightarrow> string \<Rightarrow> string \<times> string" where
  "replaceRefs env s =
     (case s of
        [] \<Rightarrow> ([], [])
      | c # t \<Rightarrow>
          (case envRef s of
             Some (name, r) \<Rightarrow>
               (let (out, missing) = replaceRefs env r in
                case env name of
                  Some v \<Rightarrow> (v @ out, missing)
                | None \<Rightarrow> (out, if missing = [] then name else missing))
           | None \<Rightarrow> (let (out, missing) = replaceRefs env t in (c # out, missing))))"
  by pat_completeness auto
termination
  by (relation "measure (\<lambda>(env, s). length s)") (auto dest: envRef_length)

declare replaceRefs.simps [simp del]

definition expandRefs :: "(string \<Rightarrow> string option) \<Rightarrow> string \<Rightarrow> string + string" where
  "expandRefs env s =
     (if \<not> Contains s ''${'' then Inr s
      else (let (out, missing) = replaceRefs env s
            in if missing \<noteq> [] then Inl missing else Inr out))"

text \<open>The values of a header map, in one order of iteration; the error names the header.\<close>

definition expandHeaders ::
    "(string \<Rightarrow> string option) \<Rightarrow> (string, string) gomap \<Rightarrow> (string \<times> string) + (string, string) gomap" where
  "expandHeaders env m =
     mapE (\<lambda>(k, v). case expandRefs env v of Inl x \<Rightarrow> Inl (k, x) | Inr v' \<Rightarrow> Inr (k, v')) m"

definition expandTenant ::
    "(string \<Rightarrow> string option) \<Rightarrow> string \<Rightarrow> TenantConfig \<Rightarrow> config_error + TenantConfig" where
  "expandTenant env bname t =
     (case expandRefs env (tc_Credential t) of
        Inl x \<Rightarrow> Inl (UnsetInTenantCredential bname (tc_ID t) x)
      | Inr cred \<Rightarrow>
          (case expandHeaders env (tc_Headers t) of
             Inl (k, x) \<Rightarrow> Inl (UnsetInTenantHeader bname (tc_ID t) k x)
           | Inr hs \<Rightarrow> Inr (t\<lparr>tc_Credential := cred, tc_Headers := hs\<rparr>)))"

definition expandBackend ::
    "(string \<Rightarrow> string option) \<Rightarrow> BackendConfig \<Rightarrow> config_error + BackendConfig" where
  "expandBackend env b =
     (case expandRefs env (bc_Credential b) of
        Inl x \<Rightarrow> Inl (UnsetInBackendCredential (bc_Name b) x)
      | Inr cred \<Rightarrow>
          (case expandHeaders env (bc_Headers b) of
             Inl (k, x) \<Rightarrow> Inl (UnsetInBackendHeader (bc_Name b) k x)
           | Inr hs \<Rightarrow>
               (case mapE (expandTenant env (bc_Name b)) (bc_Tenants b) of
                  Inl e \<Rightarrow> Inl e
                | Inr ts \<Rightarrow> Inr (b\<lparr>bc_Credential := cred, bc_Headers := hs, bc_Tenants := ts\<rparr>))))"

definition expandEnv :: "(string \<Rightarrow> string option) \<Rightarrow> Config \<Rightarrow> config_error + Config" where
  "expandEnv env c =
     (case mapE (expandBackend env) (Backends c) of
        Inl e \<Rightarrow> Inl e
      | Inr bs \<Rightarrow> Inr (c\<lparr>Backends := bs\<rparr>))"

section \<open>Validation\<close>

definition validateAuth :: "AuthConfig \<Rightarrow> config_error + unit" where
  "validateAuth a =
     (if Mode a = AuthModeJWKS then
        (if JWKSURL a = [] \<and> Issuer a = [] then Inl JWKSNeedsURLOrIssuer else Inr ())
      else if Mode a = AuthModeStatic then
        (if (HMACSecret a = []) = (PublicKeyPEMFile a = []) then Inl StaticNeedsExactlyOneKey else Inr ())
      else if Mode a = AuthModeInsecure then Inr ()
      else Inl (UnknownMode (Mode a)))"

fun validateTenants ::
    "string \<Rightarrow> nat \<Rightarrow> (string, string) gomap \<Rightarrow> TenantConfig list \<Rightarrow> config_error + (string, string) gomap" where
  "validateTenants bname ti owner [] = Inr owner"
| "validateTenants bname ti owner (t # ts) =
     (if tc_ID t = [] then Inl (TenantIDRequired bname ti)
      else case map_of owner (tc_ID t) of
             Some o' \<Rightarrow> Inl (DuplicateTenantID (tc_ID t) o' bname)
           | None \<Rightarrow>
               (if tc_Groups t = [] then Inl (NoGroups bname (tc_ID t))
                else validateTenants bname (Suc ti) (gomap_set (tc_ID t) bname owner) ts))"

fun validateBackends ::
    "nat \<Rightarrow> (string, bool) gomap \<Rightarrow> (string, string) gomap \<Rightarrow> BackendConfig list \<Rightarrow> config_error + unit" where
  "validateBackends i names owner [] = Inr ()"
| "validateBackends i names owner (b # bs) =
     (if bc_Name b = [] then Inl (BackendNameRequired i)
      else if map_of names (bc_Name b) = Some True then Inl (DuplicateBackendName (bc_Name b))
      else if bc_URL b = [] then Inl (BackendURLRequired (bc_Name b))
      else if bc_ProtocolVersion b \<noteq> ProtocolVersionStateful \<and> bc_ProtocolVersion b \<noteq> ProtocolVersionStateless
      then Inl (BadProtocolVersion (bc_Name b) (bc_ProtocolVersion b))
      else if bc_Tenants b = [] then Inl (NoTenants (bc_Name b))
      else case validateTenants (bc_Name b) 0 owner (bc_Tenants b) of
             Inl e \<Rightarrow> Inl e
           | Inr owner' \<Rightarrow> validateBackends (Suc i) (gomap_set (bc_Name b) True names) owner' bs)"

definition Validate :: "Config \<Rightarrow> config_error + unit" where
  "Validate c =
     (case validateAuth (Auth c) of
        Inl e \<Rightarrow> Inl e
      | Inr _ \<Rightarrow> if Backends c = [] then Inl NoBackends else validateBackends 0 [] [] (Backends c))"

section \<open>Loading\<close>

definition Load ::
    "(string \<Rightarrow> string + string) \<Rightarrow> (string \<Rightarrow> string + Config) \<Rightarrow> (string \<Rightarrow> string option)
     \<Rightarrow> string \<Rightarrow> config_error + Config" where
  "Load read_file yaml_Unmarshal env path =
     (case read_file path of
        Inl e \<Rightarrow> Inl (ReadConfig e)
      | Inr raw \<Rightarrow>
          (case yaml_Unmarshal raw of
             Inl e \<Rightarrow> Inl (ParseConfig e)
           | Inr c0 \<Rightarrow>
               (case expandEnv env (applyDefaults c0) of
                  Inl e \<Rightarrow> Inl e
                | Inr c \<Rightarrow> (case Validate c of Inl e \<Rightarrow> Inl e | Inr _ \<Rightarrow> Inr c))))"

section \<open>What a valid configuration is\<close>

text \<open>
  The rules the README lists, as a predicate on the whole tree: usable key material for the
  mode, at least one backend, unique non-empty backend names, a URL and a known protocol version
  per backend, at least one tenant per backend, globally unique non-empty tenant ids and at least
  one group per tenant.
\<close>

definition auth_valid :: "AuthConfig \<Rightarrow> bool" where
  "auth_valid a \<longleftrightarrow>
     (Mode a = AuthModeJWKS \<and> (JWKSURL a \<noteq> [] \<or> Issuer a \<noteq> []))
     \<or> (Mode a = AuthModeStatic \<and> (HMACSecret a = [] \<longleftrightarrow> PublicKeyPEMFile a \<noteq> []))
     \<or> Mode a = AuthModeInsecure"

definition tenant_valid :: "TenantConfig \<Rightarrow> bool" where
  "tenant_valid t \<longleftrightarrow> tc_ID t \<noteq> [] \<and> tc_Groups t \<noteq> []"

definition backend_valid :: "BackendConfig \<Rightarrow> bool" where
  "backend_valid b \<longleftrightarrow>
     bc_Name b \<noteq> [] \<and> bc_URL b \<noteq> []
     \<and> bc_ProtocolVersion b \<in> {ProtocolVersionStateful, ProtocolVersionStateless}
     \<and> bc_Tenants b \<noteq> [] \<and> (\<forall>t \<in> set (bc_Tenants b). tenant_valid t)"

definition tenant_ids :: "BackendConfig list \<Rightarrow> string list" where
  "tenant_ids bs = concat (map (\<lambda>b. map tc_ID (bc_Tenants b)) bs)"

definition config_valid :: "Config \<Rightarrow> bool" where
  "config_valid c \<longleftrightarrow>
     auth_valid (Auth c) \<and> Backends c \<noteq> [] \<and> (\<forall>b \<in> set (Backends c). backend_valid b)
     \<and> distinct (map bc_Name (Backends c)) \<and> distinct (tenant_ids (Backends c))"

lemma validateAuth_iff: "validateAuth a = Inr () \<longleftrightarrow> auth_valid a"
  by (auto simp: validateAuth_def auth_valid_def AuthModeJWKS_def AuthModeStatic_def AuthModeInsecure_def)

lemma validateTenants_iff:
  "validateTenants bname ti owner ts = Inr owner' \<longleftrightarrow>
     (\<forall>t \<in> set ts. tenant_valid t) \<and> distinct (map tc_ID ts)
     \<and> set (map tc_ID ts) \<inter> dom (map_of owner) = {}
     \<and> owner' = fold (\<lambda>t m. gomap_set (tc_ID t) bname m) ts owner"
proof (induction ts arbitrary: ti owner)
  case (Cons t ts)
  show ?case
    by (cases "map_of owner (tc_ID t)") (auto simp: Cons.IH tenant_valid_def)
qed auto

lemma dom_fold_owner:
  "dom (map_of (fold (\<lambda>t m. gomap_set (tc_ID t) bname m) ts owner)) = dom (map_of owner) \<union> set (map tc_ID ts)"
  by (induction ts arbitrary: owner) auto

lemma disjoint_split:
  "A \<inter> insert x D = {} \<longleftrightarrow> x \<notin> A \<and> A \<inter> D = {}"
  "insert x A \<inter> D = {} \<longleftrightarrow> x \<notin> D \<and> A \<inter> D = {}"
  "I \<inter> (D \<union> A) = {} \<longleftrightarrow> A \<inter> I = {} \<and> I \<inter> D = {}"
  "(A \<union> I) \<inter> D = {} \<longleftrightarrow> A \<inter> D = {} \<and> I \<inter> D = {}"
  by blast+

lemma validateBackends_iff:
  assumes "\<forall>n. map_of names n \<noteq> Some False"
  shows "validateBackends i names owner bs = Inr () \<longleftrightarrow>
     (\<forall>b \<in> set bs. backend_valid b) \<and> distinct (map bc_Name bs)
     \<and> set (map bc_Name bs) \<inter> dom (map_of names) = {}
     \<and> distinct (tenant_ids bs) \<and> set (tenant_ids bs) \<inter> dom (map_of owner) = {}"
  using assms
proof (induction bs arbitrary: i names owner)
  case Nil
  then show ?case by (simp add: tenant_ids_def)
next
  case (Cons b bs)
  have ids: "tenant_ids (b # bs) = map tc_ID (bc_Tenants b) @ tenant_ids bs"
    by (simp add: tenant_ids_def)
  have seen: "map_of names (bc_Name b) = Some True \<longleftrightarrow> bc_Name b \<in> dom (map_of names)"
    using Cons.prems by (auto simp: dom_def) (metis (full_types))
  have step: "\<forall>n. map_of (gomap_set (bc_Name b) True names) n \<noteq> Some False"
    using Cons.prems by (simp add: update_conv')
  show ?case
  proof (cases "validateTenants (bc_Name b) 0 owner (bc_Tenants b)")
    case (Inl e)
    then have "\<not> ((\<forall>t \<in> set (bc_Tenants b). tenant_valid t) \<and> distinct (map tc_ID (bc_Tenants b))
       \<and> set (map tc_ID (bc_Tenants b)) \<inter> dom (map_of owner) = {})"
      using validateTenants_iff [of "bc_Name b" 0 owner "bc_Tenants b"] by auto
    then have "\<not> (backend_valid b \<and> distinct (tenant_ids (b # bs)) \<and> set (tenant_ids (b # bs)) \<inter> dom (map_of owner) = {})"
      unfolding ids backend_valid_def distinct_append set_append by blast
    moreover have "validateBackends i names owner (b # bs) \<noteq> Inr ()"
      using Inl by simp
    ultimately show ?thesis unfolding list.set ball_simps by blast
  next
    case (Inr owner')
    have ok: "distinct (map tc_ID (bc_Tenants b))" "set (map tc_ID (bc_Tenants b)) \<inter> dom (map_of owner) = {}"
      "\<forall>t \<in> set (bc_Tenants b). tenant_valid t"
      "owner' = fold (\<lambda>t m. gomap_set (tc_ID t) (bc_Name b) m) (bc_Tenants b) owner"
      using validateTenants_iff [THEN iffD1, OF Inr] by blast+
    have "dom (map_of owner') = dom (map_of owner) \<union> set (map tc_ID (bc_Tenants b))"
      using ok by (simp add: dom_fold_owner)
    moreover have "dom (map_of (gomap_set (bc_Name b) True names)) = insert (bc_Name b) (dom (map_of names))"
      by simp
    ultimately have rest: "validateBackends (Suc i) (gomap_set (bc_Name b) True names) owner' bs = Inr () \<longleftrightarrow>
       (\<forall>b \<in> set bs. backend_valid b) \<and> distinct (map bc_Name bs)
       \<and> set (map bc_Name bs) \<inter> insert (bc_Name b) (dom (map_of names)) = {}
       \<and> distinct (tenant_ids bs)
       \<and> set (tenant_ids bs) \<inter> (dom (map_of owner) \<union> set (map tc_ID (bc_Tenants b))) = {}"
      using Cons.IH [OF step, of "Suc i" owner'] by simp
    have head: "validateBackends i names owner (b # bs) = Inr () \<longleftrightarrow>
       backend_valid b \<and> bc_Name b \<notin> dom (map_of names)
       \<and> validateBackends (Suc i) (gomap_set (bc_Name b) True names) owner' bs = Inr ()"
      using Inr seen ok by (simp add: backend_valid_def)
    show ?thesis
      unfolding head rest ids list.map distinct.simps distinct_append set_append list.set ball_simps disjoint_split
      using ok(1,2) by argo
  qed
qed

lemma Validate_correct: "Validate c = Inr () \<longleftrightarrow> config_valid c"
proof (cases "validateAuth (Auth c)")
  case (Inl e)
  then have "\<not> auth_valid (Auth c)" using validateAuth_iff [of "Auth c"] by simp
  with Inl show ?thesis by (simp add: Validate_def config_valid_def)
next
  case (Inr u)
  then have "auth_valid (Auth c)" using validateAuth_iff [of "Auth c"] by simp
  with Inr show ?thesis
    using validateBackends_iff [of "[]" 0 "[]" "Backends c"]
    by (auto simp: Validate_def config_valid_def)
qed

text \<open>C38. Validation accepts exactly the configurations that satisfy every rule: the loop that
  stops at the first violation misses none and rejects nothing else, whatever the number and the
  order of the backends and tenants.\<close>

theorem Validate_iff: "Validate c = Inr () \<longleftrightarrow> config_valid c"
  by (rule Validate_correct)

section \<open>Expansion\<close>

text \<open>The variables a text refers to, from left to right.\<close>

function env_refs :: "string \<Rightarrow> string list" where
  "env_refs s =
     (case s of
        [] \<Rightarrow> []
      | c # t \<Rightarrow> (case envRef s of Some (name, r) \<Rightarrow> name # env_refs r | None \<Rightarrow> env_refs t))"
  by pat_completeness auto
termination
  by (relation "measure length") (auto dest: envRef_length)

declare env_refs.simps [simp del]

lemma envRef_name: "envRef s = Some (name, r) \<Longrightarrow> name \<noteq> []"
  by (auto simp: envRef_def Let_def split: if_splits)

lemma envRef_Nil [simp]: "envRef [] = None"
  by (simp add: envRef_def HasPrefix_def)

lemma replaceRefs_Nil [simp]: "replaceRefs env [] = ([], [])"
  by (simp add: replaceRefs.simps)

lemma replaceRefs_skip:
  "envRef (c # t) = None \<Longrightarrow> replaceRefs env (c # t) = (c # fst (replaceRefs env t), snd (replaceRefs env t))"
  by (simp add: replaceRefs.simps [of env "c # t"] split: prod.split)

lemma replaceRefs_match:
  "envRef s = Some (name, r) \<Longrightarrow>
   replaceRefs env s =
     (case env name of
        Some v \<Rightarrow> (v @ fst (replaceRefs env r), snd (replaceRefs env r))
      | None \<Rightarrow> (fst (replaceRefs env r), if snd (replaceRefs env r) = [] then name else snd (replaceRefs env r)))"
  by (subst replaceRefs.simps, cases s) (auto split: prod.split option.split)

lemma env_refs_Nil [simp]: "env_refs [] = []"
  by (simp add: env_refs.simps)

lemma env_refs_skip: "envRef (c # t) = None \<Longrightarrow> env_refs (c # t) = env_refs t"
  by (simp add: env_refs.simps [of "c # t"])

lemma env_refs_match: "envRef s = Some (name, r) \<Longrightarrow> env_refs s = name # env_refs r"
  by (subst env_refs.simps, cases s) auto

lemma refs_induct [case_names Nil skip match]:
  assumes "P []"
    and "\<And>c t. envRef (c # t) = None \<Longrightarrow> P t \<Longrightarrow> P (c # t)"
    and "\<And>s name r. envRef s = Some (name, r) \<Longrightarrow> P r \<Longrightarrow> P s"
  shows "P s"
proof (induction s rule: length_induct)
  case (1 s)
  show ?case
  proof (cases "envRef s")
    case None
    with 1 assms(1,2) show ?thesis by (cases s) auto
  next
    case (Some nr)
    with 1 assms(3) show ?thesis by (cases nr) (auto dest: envRef_length)
  qed
qed

lemma env_refs_nonempty: "n \<in> set (env_refs s) \<Longrightarrow> n \<noteq> []"
  by (induction s rule: refs_induct) (auto simp: env_refs_skip env_refs_match dest: envRef_name)

lemma replaceRefs_missing:
  "snd (replaceRefs env s) =
     (let ms = filter (\<lambda>n. env n = None) (env_refs s) in if ms = [] then [] else last ms)"
proof (induction s rule: refs_induct)
  case (match s name r)
  have "last (filter (\<lambda>n. env n = None) (env_refs r)) \<noteq> []" if "filter (\<lambda>n. env n = None) (env_refs r) \<noteq> []"
    using last_in_set [OF that] env_refs_nonempty by auto
  with match show ?case
    by (auto simp: replaceRefs_match env_refs_match Let_def split: option.split)
qed (simp_all add: replaceRefs_skip env_refs_skip)

lemma envRef_prefix: "envRef s = Some nr \<Longrightarrow> HasPrefix s ''${''"
  by (auto simp: envRef_def split: if_splits)

lemma env_refs_plain: "\<not> Contains s ''${'' \<Longrightarrow> env_refs s = []"
proof (induction s rule: refs_induct)
  case (match s name r)
  then show ?case by (cases s) (auto dest: envRef_prefix)
qed (simp_all add: env_refs_skip)

text \<open>C40. Expansion fails exactly when the text refers to an unset variable, and the error
  names the last one; in particular a text without references never fails.\<close>

theorem expandRefs_error_iff:
  "expandRefs env s = Inl x \<longleftrightarrow>
     filter (\<lambda>n. env n = None) (env_refs s) \<noteq> [] \<and> x = last (filter (\<lambda>n. env n = None) (env_refs s))"
proof (cases "Contains s ''${''")
  case True
  have "last ms \<noteq> []" if "ms = filter (\<lambda>n. env n = None) (env_refs s)" "ms \<noteq> []" for ms
    using last_in_set [OF that(2)] that(1) env_refs_nonempty by auto
  with True show ?thesis
    using replaceRefs_missing [of env s]
    by (auto simp: expandRefs_def Let_def split: prod.split if_splits)
next
  case False
  then show ?thesis by (simp add: expandRefs_def env_refs_plain)
qed

lemma envRef_ref:
  assumes "name \<noteq> []" "\<not> is_digit (hd name)" "list_all word_byte name"
  shows "envRef (''${'' @ name @ ''}'' @ t) = Some (name, t)"
proof -
  have "\<not> word_byte (CHR ''}'')" by (simp add: word_byte_def is_digit_def)
  then have "takeWhile word_byte (name @ CHR ''}'' # t) = name"
    and "dropWhile word_byte (name @ CHR ''}'' # t) = CHR ''}'' # t"
    using assms(3) by (simp_all add: list_all_iff)
  with assms show ?thesis by (simp add: envRef_def HasPrefix_def)
qed

lemma replaceRefs_plain_append:
  "CHR ''$'' \<notin> set a \<Longrightarrow> replaceRefs env (a @ s) = (a @ fst (replaceRefs env s), snd (replaceRefs env s))"
proof (induction a)
  case (Cons c a)
  then have "envRef (c # a @ s) = None"
    by (auto simp: envRef_def HasPrefix_def)
  with Cons show ?case by (simp add: replaceRefs_skip)
qed simp

text \<open>A reference to a set variable is replaced by its value, and the text around it is
  left as it is.\<close>

lemma expandRefs_substitutes:
  assumes "CHR ''$'' \<notin> set a" and "CHR ''$'' \<notin> set b"
    and "name \<noteq> []" "\<not> is_digit (hd name)" "list_all word_byte name" and "env name = Some v"
  shows "expandRefs env (a @ ''${'' @ name @ ''}'' @ b) = Inr (a @ v @ b)"
proof -
  have "Contains (a @ ''${'' @ name @ ''}'' @ b) ''${''"
    unfolding Contains_iff by (metis append.assoc)
  moreover have "replaceRefs env b = (b, [])"
    using replaceRefs_plain_append [OF assms(2), of env "[]"] by simp
  ultimately show ?thesis
    using assms replaceRefs_plain_append [OF assms(1)] replaceRefs_match [OF envRef_ref [OF assms(3-5), of b], of env]
    by (simp add: expandRefs_def)
qed

text \<open>The hypotheses hold for \<open>Bearer ${PAT}!\<close>.\<close>

lemma expandRefs_substitutes_example:
  "expandRefs [''PAT'' \<mapsto> ''s3cr3t''] (''Bearer '' @ ''${'' @ ''PAT'' @ ''}'' @ ''!'') = Inr (''Bearer '' @ ''s3cr3t'' @ ''!'')"
  by (rule expandRefs_substitutes) (simp_all add: is_digit_def word_byte_def)

section \<open>Defaults\<close>

lemma or_default_nonempty [simp]: "d \<noteq> [] \<Longrightarrow> or_default d s \<noteq> []"
  by (simp add: or_default_def)

lemma or_default_idem [simp]: "or_default d (or_default d s) = or_default d s"
  by (simp add: or_default_def)

lemma default_backend_idem [simp]: "default_backend (default_backend b) = default_backend b"
  by (simp add: default_backend_def split: option.split)

text \<open>Applying the defaults twice is applying them once, and a field the configuration sets
  is never overwritten.\<close>

lemma applyDefaults_idem:
  "applyDefaults (applyDefaults c) = applyDefaults c
   \<and> (Listen (Server c) = [] \<or> Listen (Server (applyDefaults c)) = Listen (Server c))
   \<and> (GroupsClaim (Auth c) = [] \<or> GroupsClaim (Auth (applyDefaults c)) = GroupsClaim (Auth c))
   \<and> map bc_Tenants (Backends (applyDefaults c)) = map bc_Tenants (Backends c)"
  by (simp add: applyDefaults_def or_default_def default_backend_def comp_def split: option.split)

text \<open>What the expansion leaves alone.\<close>

lemma expandBackend_keeps:
  assumes "expandBackend env b = Inr b'"
  shows "bc_Name b' = bc_Name b" and "bc_URL b' = bc_URL b"
    and "bc_CredentialHeader b' = bc_CredentialHeader b" and "bc_CredentialScheme b' = bc_CredentialScheme b"
    and "bc_ProtocolVersion b' = bc_ProtocolVersion b"
  using assms by (auto simp: expandBackend_def split: sum.splits)

lemma expandEnv_keeps:
  assumes "expandEnv env c = Inr c'"
  shows "Server c' = Server c" and "Auth c' = Auth c" and "Observability c' = Observability c"
    and "list_all2 (\<lambda>b b'. expandBackend env b = Inr b') (Backends c) (Backends c')"
  using assms by (auto simp: expandEnv_def mapE_Inr_iff split: sum.splits)

lemma expandEnv_backend:
  assumes "expandEnv env c = Inr c'" and "b' \<in> set (Backends c')"
  shows "\<exists>b \<in> set (Backends c). expandBackend env b = Inr b'"
  using list_all2_in2 [OF expandEnv_keeps(4) [OF assms(1)] assms(2)] .

lemma default_backend_set:
  "bc_CredentialHeader (default_backend b) \<noteq> [] \<and> bc_CredentialScheme (default_backend b) \<noteq> None"
  by (simp add: default_backend_def split: option.split)

text \<open>C39. A configuration that loads is valid, and every setting the rest of the program relies
  on is filled in: the endpoint path, the groups claim, and for every backend the credential
  header, the scheme and one of the two protocol versions.\<close>

theorem Load_ok:
  assumes "Load read_file yaml env path = Inr c"
  shows "config_valid c \<and> Path (Server c) \<noteq> [] \<and> GroupsClaim (Auth c) \<noteq> []
    \<and> (\<forall>b \<in> set (Backends c). bc_CredentialHeader b \<noteq> [] \<and> bc_CredentialScheme b \<noteq> None)"
proof -
  from assms obtain raw c0 where x: "expandEnv env (applyDefaults c0) = Inr c" and "Validate c = Inr ()"
    by (auto simp: Load_def split: sum.splits)
  then have "config_valid c" by (simp add: Validate_correct)
  moreover have "Path (Server c) \<noteq> []" and "GroupsClaim (Auth c) \<noteq> []"
    using expandEnv_keeps [OF x] by (simp_all add: applyDefaults_def)
  moreover have "bc_CredentialHeader b \<noteq> [] \<and> bc_CredentialScheme b \<noteq> None" if "b \<in> set (Backends c)" for b
  proof -
    from expandEnv_backend [OF x that] obtain b0 where "expandBackend env (default_backend b0) = Inr b"
      by (auto simp: applyDefaults_def)
    from expandBackend_keeps [OF this] default_backend_set [of b0] show ?thesis by simp
  qed
  ultimately show ?thesis by blast
qed

text \<open>A small configuration with two tenants on one backend.\<close>

definition example_config :: Config where
  "example_config =
     \<lparr>Server = \<lparr>Listen = [], Path = [], ExternalURL = []\<rparr>,
      Auth = \<lparr>Mode = ''static'', GroupsClaim = [], Issuer = [], Audience = [], AdditionalAudiences = [],
              ScopesSupported = [], JWKSURL = [], HMACSecret = ''k'', PublicKeyPEMFile = []\<rparr>,
      Backends = [\<lparr>bc_Name = ''github'', bc_URL = ''http://gh/'', bc_Headers = [], bc_Credential = [],
                    bc_CredentialHeader = [], bc_CredentialScheme = None, bc_ProtocolVersion = [],
                    bc_Tenants =
                      [\<lparr>tc_ID = ''a'', tc_Groups = [''g1''], tc_Credential = ''${PA}'', tc_Headers = []\<rparr>,
                       \<lparr>tc_ID = ''b'', tc_Groups = [''g2''], tc_Credential = ''pb'', tc_Headers = []\<rparr>]\<rparr>],
      Observability = \<lparr>MetricsListen = [], MetricsPath = []\<rparr>\<rparr>"

definition example_loaded :: "config_error + Config" where
  "example_loaded = Load (\<lambda>_. Inr []) (\<lambda>_. Inr example_config) [''PA'' \<mapsto> ''pa''] ''config.yaml''"

lemma example_loads:
  "case example_loaded of
     Inr c \<Rightarrow> map tc_Credential (bc_Tenants (hd (Backends c))) = [''pa'', ''pb'']
   | Inl _ \<Rightarrow> False"
  by code_simp

lemma example_loads_ok: "\<exists>c. Load (\<lambda>_. Inr []) (\<lambda>_. Inr example_config) [''PA'' \<mapsto> ''pa''] ''config.yaml'' = Inr c"
  using example_loads unfolding example_loaded_def by (auto split: sum.splits)

theorem Load_ok_witness:
  "\<exists>c. Load (\<lambda>_. Inr []) (\<lambda>_. Inr example_config) [''PA'' \<mapsto> ''pa''] ''config.yaml'' = Inr c
     \<and> config_valid c \<and> GroupsClaim (Auth c) \<noteq> []"
  using example_loads_ok Load_ok by blast

text \<open>The metrics listener cannot be switched off: an empty \<open>metrics_listen\<close>, which the
  documentation gives as the way to disable it, is replaced by the default address in every
  configuration that loads.\<close>

lemma metrics_listener_always_on:
  assumes "Load read_file yaml env path = Inr c"
  shows "MetricsListen (Observability c) \<noteq> []"
proof -
  from assms obtain c0 where "expandEnv env (applyDefaults c0) = Inr c"
    by (auto simp: Load_def split: sum.splits)
  from expandEnv_keeps(3) [OF this] show ?thesis by (simp add: applyDefaults_def)
qed

lemma metrics_listener_always_on_example:
  "\<exists>c. Load (\<lambda>_. Inr []) (\<lambda>_. Inr example_config) [''PA'' \<mapsto> ''pa''] ''config.yaml'' = Inr c
     \<and> MetricsListen (Observability example_config) = [] \<and> MetricsListen (Observability c) \<noteq> []"
  using example_loads_ok metrics_listener_always_on [of "\<lambda>_. Inr []" "\<lambda>_. Inr example_config"]
  by (auto simp: example_config_def)

end
