(* ===== verification/Go_Url.thy ===== *)
theory Go_Url
  imports Go_Json
begin

text \<open>
  The part of \<^verbatim>\<open>net/url\<close> the program uses: \<^verbatim>\<open>url.Parse\<close>, the fields \<^verbatim>\<open>Scheme\<close>, \<^verbatim>\<open>Host\<close> and
  \<^verbatim>\<open>Path\<close>, and \<^verbatim>\<open>URL.String\<close>. The text between the brackets of an IPv6 host is only checked
  character by character, not as an address.
\<close>

record url =
  url_scheme :: string
  url_opaque :: string
  url_user :: "(string \<times> string option) option"
  url_host :: string
  url_path :: string
  url_rawpath :: string
  url_omithost :: bool
  url_forcequery :: bool
  url_rawquery :: string
  url_fragment :: string
  url_rawfragment :: string

section \<open>Splitting\<close>

text \<open>\<^verbatim>\<open>strings.Cut\<close> at the first occurrence of a byte; \<open>None\<close> when it does not occur.\<close>

fun cut :: "char \<Rightarrow> string \<Rightarrow> (string \<times> string) option" where
  "cut c [] = None"
| "cut c (x # s) = (if x = c then Some ([], s) else map_option (\<lambda>(a, b). (x # a, b)) (cut c s))"

definition cut_before :: "char \<Rightarrow> string \<Rightarrow> string" where
  "cut_before c s = (case cut c s of None \<Rightarrow> s | Some (a, _) \<Rightarrow> a)"

definition cut_after :: "char \<Rightarrow> string \<Rightarrow> string" where
  "cut_after c s = (case cut c s of None \<Rightarrow> [] | Some (_, b) \<Rightarrow> b)"

text \<open>The same at the last occurrence.\<close>

definition cut_last :: "char \<Rightarrow> string \<Rightarrow> (string \<times> string) option" where
  "cut_last c s = map_option (\<lambda>(a, b). (rev b, rev a)) (cut c (rev s))"

section \<open>Percent encoding\<close>

datatype enc_mode = encodePath | encodeHost | encodeUserPassword | encodeFragment

definition is_alnum :: "char \<Rightarrow> bool" where
  "is_alnum c \<longleftrightarrow> is_digit c \<or> (65 \<le> byte c \<and> byte c \<le> (90::nat)) \<or> (97 \<le> byte c \<and> byte c \<le> (122::nat))"

definition shouldEscape :: "char \<Rightarrow> enc_mode \<Rightarrow> bool" where
  "shouldEscape c m =
     (if is_alnum c then False
      else if m = encodeHost
           \<and> c \<in> set [CHR ''!'', CHR ''$'', CHR ''&'', CHR 0x27, CHR ''('', CHR '')'', CHR ''*'', CHR ''+'',
                       CHR '','', CHR '';'', CHR ''='', CHR '':'', CHR ''['', CHR '']'', CHR ''<'', CHR ''>'', CHR 0x22]
      then False
      else if c \<in> set ''-_.~'' then False
      else if c \<in> set ''$&+,/:;=?@'' then
        (case m of
           encodePath \<Rightarrow> c = CHR ''?''
         | encodeUserPassword \<Rightarrow> c \<in> set ''@/?:''
         | encodeFragment \<Rightarrow> False
         | encodeHost \<Rightarrow> True)
      else if m = encodeFragment \<and> c \<in> set ''!()*'' then False
      else True)"

definition hex_upper :: "nat \<Rightarrow> char" where
  "hex_upper d = (if d < 10 then char_of (48 + d) else char_of (55 + d))"

definition url_escape :: "enc_mode \<Rightarrow> string \<Rightarrow> string" where
  "url_escape m s =
     concat (map (\<lambda>c. if shouldEscape c m then [CHR ''%'', hex_upper (byte c div 16), hex_upper (byte c mod 16)]
                      else [c]) s)"

text \<open>\<open>None\<close> is an \<^verbatim>\<open>EscapeError\<close> or an \<^verbatim>\<open>InvalidHostError\<close>.\<close>

fun url_unescape :: "enc_mode \<Rightarrow> string \<Rightarrow> string option" where
  "url_unescape m [] = Some []"
| "url_unescape m (c # s) =
     (if c = CHR ''%'' then
        (case s of
           a # b # r \<Rightarrow>
             if is_hex a \<and> is_hex b
                \<and> (m = encodeHost \<longrightarrow> 8 \<le> hex_val a \<or> (a = CHR ''2'' \<and> b = CHR ''5''))
             then map_option ((#) (char_of (hex_val a * 16 + hex_val b))) (url_unescape m r)
             else None
         | _ \<Rightarrow> None)
      else if m = encodeHost \<and> byte c < (0x80::nat) \<and> shouldEscape c m then None
      else map_option ((#) c) (url_unescape m s))"

definition validEncoded :: "enc_mode \<Rightarrow> string \<Rightarrow> bool" where
  "validEncoded m s =
     list_all (\<lambda>c. c \<in> set [CHR ''!'', CHR ''$'', CHR ''&'', CHR 0x27, CHR ''('', CHR '')'', CHR ''*'', CHR ''+'',
                       CHR '','', CHR '';'', CHR ''='', CHR '':'', CHR ''@'', CHR ''['', CHR '']'', CHR ''%'']
                   \<or> \<not> shouldEscape c m) s"

section \<open>Parsing\<close>

definition is_alpha :: "char \<Rightarrow> bool" where
  "is_alpha c \<longleftrightarrow> is_alnum c \<and> \<not> is_digit c"

text \<open>\<^verbatim>\<open>getScheme\<close>: the scheme and the rest; \<open>None\<close> is the error "missing protocol scheme".\<close>

fun scheme_scan :: "string \<Rightarrow> string \<Rightarrow> (string \<times> string) option" where
  "scheme_scan acc [] = Some ([], acc)"
| "scheme_scan acc (c # s) =
     (if is_alpha c then scheme_scan (acc @ [c]) s
      else if is_digit c \<or> c \<in> set ''+-.'' then
        (if acc = [] then Some ([], c # s) else scheme_scan (acc @ [c]) s)
      else if c = CHR '':'' then (if acc = [] then None else Some (acc, s))
      else Some ([], acc @ c # s))"

definition validOptionalPort :: "string \<Rightarrow> bool" where
  "validOptionalPort p = (case p of [] \<Rightarrow> True | c # ds \<Rightarrow> c = CHR '':'' \<and> list_all is_digit ds)"

definition parseHost :: "string \<Rightarrow> string option" where
  "parseHost h =
     (if HasPrefix h ''['' then
        (case cut_last (CHR '']'') h of
           None \<Rightarrow> None
         | Some (_, port) \<Rightarrow> if validOptionalPort port then url_unescape encodeHost h else None)
      else
        (case cut (CHR '':'') h of
           None \<Rightarrow> url_unescape encodeHost h
         | Some (_, port) \<Rightarrow> if list_all is_digit port then url_unescape encodeHost h else None))"

definition validUserinfo :: "string \<Rightarrow> bool" where
  "validUserinfo s = list_all (\<lambda>c. is_alnum c \<or> c \<in> set [CHR ''-'', CHR ''.'', CHR ''_'', CHR '':'', CHR ''~'',
      CHR ''!'', CHR ''$'', CHR ''&'', CHR 0x27, CHR ''('', CHR '')'', CHR ''*'', CHR ''+'', CHR '','', CHR '';'',
      CHR ''='', CHR ''%'', CHR ''@'']) s"

definition parseUserinfo :: "string \<Rightarrow> (string \<times> string option) option" where
  "parseUserinfo s =
     (if \<not> validUserinfo s then None
      else case cut (CHR '':'') s of
             None \<Rightarrow> map_option (\<lambda>u. (u, None)) (url_unescape encodeUserPassword s)
           | Some (a, b) \<Rightarrow>
               (case (url_unescape encodeUserPassword a, url_unescape encodeUserPassword b) of
                  (Some u, Some p) \<Rightarrow> Some (u, Some p)
                | _ \<Rightarrow> None))"

definition parseAuthority :: "string \<Rightarrow> ((string \<times> string option) option \<times> string) option" where
  "parseAuthority a =
     (case cut_last (CHR ''@'') a of
        None \<Rightarrow> map_option (\<lambda>h. (None, h)) (parseHost a)
      | Some (ui, h) \<Rightarrow>
          (case (parseHost h, parseUserinfo ui) of
             (Some h', Some u) \<Rightarrow> Some (Some u, h')
           | _ \<Rightarrow> None))"

definition setPath :: "string \<Rightarrow> url \<Rightarrow> url option" where
  "setPath p u =
     (case url_unescape encodePath p of
        None \<Rightarrow> None
      | Some path \<Rightarrow>
          Some (u\<lparr>url_path := path, url_rawpath := (if url_escape encodePath path = p then [] else p)\<rparr>))"

definition empty_url :: url where
  "empty_url = \<lparr>url_scheme = [], url_opaque = [], url_user = None, url_host = [], url_path = [],
     url_rawpath = [], url_omithost = False, url_forcequery = False, url_rawquery = [],
     url_fragment = [], url_rawfragment = []\<rparr>"

text \<open>What follows scheme and query: an authority and a path, or a path alone.\<close>

definition parse_rest :: "string \<Rightarrow> url \<Rightarrow> url option" where
  "parse_rest rest u =
     (if HasPrefix rest ''//'' \<and> (url_scheme u \<noteq> [] \<or> \<not> HasPrefix rest ''///'') then
        (let a = drop 2 rest;
             auth = cut_before (CHR ''/'') a;
             p = drop (length auth) a
         in case parseAuthority auth of
              None \<Rightarrow> None
            | Some (user, host) \<Rightarrow> setPath p (u\<lparr>url_user := user, url_host := host\<rparr>))
      else setPath rest (u\<lparr>url_omithost := (url_scheme u \<noteq> [] \<and> HasPrefix rest ''/'')\<rparr>))"

definition url_parse_nofrag :: "string \<Rightarrow> url option" where
  "url_parse_nofrag s =
     (if list_ex (\<lambda>c. byte c < (0x20::nat) \<or> byte c = (0x7F::nat)) s then None
      else if s = ''*'' then Some (empty_url\<lparr>url_path := ''*''\<rparr>)
      else case scheme_scan [] s of
             None \<Rightarrow> None
           | Some (sch, rest0) \<Rightarrow>
               (let force = (HasSuffix rest0 ''?'' \<and> cut (CHR ''?'') rest0 = Some (butlast rest0, []));
                    rest = cut_before (CHR ''?'') rest0;
                    query = cut_after (CHR ''?'') rest0;
                    u = empty_url\<lparr>url_scheme := map ascii_lower sch, url_forcequery := force,
                                  url_rawquery := query\<rparr>
                in if \<not> HasPrefix rest ''/'' then
                     (if sch \<noteq> [] then Some (u\<lparr>url_opaque := rest\<rparr>)
                      else if CHR '':'' \<in> set (cut_before (CHR ''/'') rest) then None
                      else parse_rest rest u)
                   else parse_rest rest u))"

definition url_parse :: "string \<Rightarrow> string + url" where
  "url_parse s =
     (case url_parse_nofrag (cut_before (CHR ''#'') s) of
        None \<Rightarrow> Inl ''parse error''
      | Some u \<Rightarrow>
          (let f = cut_after (CHR ''#'') s in
           if f = [] then Inr u
           else case url_unescape encodeFragment f of
                  None \<Rightarrow> Inl ''invalid URL escape''
                | Some frag \<Rightarrow>
                    Inr (u\<lparr>url_fragment := frag,
                           url_rawfragment := (if url_escape encodeFragment frag = f then [] else f)\<rparr>)))"

section \<open>Printing\<close>

definition EscapedPath :: "url \<Rightarrow> string" where
  "EscapedPath u =
     (if url_rawpath u \<noteq> [] \<and> validEncoded encodePath (url_rawpath u)
         \<and> url_unescape encodePath (url_rawpath u) = Some (url_path u)
      then url_rawpath u
      else if url_path u = ''*'' then ''*''
      else url_escape encodePath (url_path u))"

definition EscapedFragment :: "url \<Rightarrow> string" where
  "EscapedFragment u =
     (if url_rawfragment u \<noteq> [] \<and> validEncoded encodeFragment (url_rawfragment u)
         \<and> url_unescape encodeFragment (url_rawfragment u) = Some (url_fragment u)
      then url_rawfragment u
      else url_escape encodeFragment (url_fragment u))"

definition Userinfo_String :: "string \<times> string option \<Rightarrow> string" where
  "Userinfo_String u =
     url_escape encodeUserPassword (fst u)
     @ (case snd u of None \<Rightarrow> [] | Some p \<Rightarrow> '':'' @ url_escape encodeUserPassword p)"

definition url_String :: "url \<Rightarrow> string" where
  "url_String u =
     (let sch = (if url_scheme u \<noteq> [] then url_scheme u @ '':'' else []);
          bare = (url_omithost u \<and> url_host u = [] \<and> url_user u = None);
          auth = (if (url_scheme u \<noteq> [] \<or> url_host u \<noteq> [] \<or> url_user u \<noteq> None) \<and> \<not> bare
                  then (if url_host u \<noteq> [] \<or> url_path u \<noteq> [] \<or> url_user u \<noteq> None then ''//'' else [])
                       @ (case url_user u of None \<Rightarrow> [] | Some ui \<Rightarrow> Userinfo_String ui @ ''@'')
                       @ url_escape encodeHost (url_host u)
                  else []);
          p = EscapedPath u;
          slash = (if p \<noteq> [] \<and> hd p \<noteq> CHR ''/'' \<and> url_host u \<noteq> [] then ''/'' else []);
          dot = (if sch @ auth @ slash = [] \<and> CHR '':'' \<in> set (cut_before (CHR ''/'') p) then ''./'' else []);
          main = (if url_opaque u \<noteq> [] then sch @ url_opaque u else sch @ auth @ slash @ dot @ p)
      in main
         @ (if url_forcequery u \<or> url_rawquery u \<noteq> [] then ''?'' @ url_rawquery u else [])
         @ (if url_fragment u \<noteq> [] then ''#'' @ EscapedFragment u else []))"

end
