(* ===== verification/Go_Http.thy ===== *)
theory Go_Http
  imports Go_Url
begin

text \<open>
  The part of \<^verbatim>\<open>net/http\<close> the program uses (header names, requests and responses) and the outside
  world as an explicit state: the requests sent so far, the reads of the clock and the reads of
  the random source. What the world answers is the environment, a parameter of every definition
  that talks to it: the answer to a request may depend on all requests sent before.
\<close>

section \<open>Header names\<close>

type_synonym hdrs = "(string, string) gomap"

definition validHeaderFieldByte :: "char \<Rightarrow> bool" where
  "validHeaderFieldByte c \<longleftrightarrow>
     is_alnum c \<or> c \<in> set [CHR ''!'', CHR ''#'', CHR ''$'', CHR ''%'', CHR ''&'', CHR 0x27, CHR ''*'', CHR ''+'',
       CHR ''-'', CHR ''.'', CHR ''^'', CHR ''_'', CHR 0x60, CHR ''|'', CHR ''~'']"

fun canon_bytes :: "bool \<Rightarrow> string \<Rightarrow> string" where
  "canon_bytes up [] = []"
| "canon_bytes up (c # s) =
     (let c' = (if up then ascii_upper c else ascii_lower c) in c' # canon_bytes (c' = CHR ''-'') s)"

definition CanonicalHeaderKey :: "string \<Rightarrow> string" where
  "CanonicalHeaderKey k = (if list_all validHeaderFieldByte k then canon_bytes True k else k)"

definition Header_Set :: "string \<Rightarrow> string \<Rightarrow> hdrs \<Rightarrow> hdrs" where
  "Header_Set k v h = gomap_set (CanonicalHeaderKey k) v h"

definition Header_Get :: "hdrs \<Rightarrow> string \<Rightarrow> string" where
  "Header_Get h k = (case map_of h (CanonicalHeaderKey k) of None \<Rightarrow> [] | Some v \<Rightarrow> v)"

text \<open>\<^verbatim>\<open>for k, v := range m { req.Header.Set(k, v) }\<close>\<close>

definition Header_SetAll :: "(string, string) gomap \<Rightarrow> hdrs \<Rightarrow> hdrs" where
  "Header_SetAll m h = fold (\<lambda>(k, v). Header_Set k v) m h"

lemma Header_SetAll_Nil [simp]: "Header_SetAll [] h = h"
  by (simp add: Header_SetAll_def)

lemma Header_SetAll_Cons [simp]: "Header_SetAll ((k, v) # m) h = Header_SetAll m (Header_Set k v h)"
  by (simp add: Header_SetAll_def)

lemma Header_SetAll_append: "Header_SetAll (m @ m') h = Header_SetAll m' (Header_SetAll m h)"
  by (simp add: Header_SetAll_def)

lemma map_of_Header_Set:
  "map_of (Header_Set k v h) x = (if x = CanonicalHeaderKey k then Some v else map_of h x)"
  by (simp add: Header_Set_def)

text \<open>A header whose name is set by no entry keeps its value; the last entry wins otherwise.\<close>

lemma map_of_Header_SetAll_other:
  "x \<notin> CanonicalHeaderKey ` fst ` set m \<Longrightarrow> map_of (Header_SetAll m h) x = map_of h x"
  by (induction m arbitrary: h) (auto simp: map_of_Header_Set)

lemma map_of_Header_SetAll_in:
  assumes "(k, v) \<in> set m" and "inj_on CanonicalHeaderKey (fst ` set m)" and "gomap_ok m"
  shows "map_of (Header_SetAll m h) (CanonicalHeaderKey k) = Some v"
  using assms
proof (induction m arbitrary: h)
  case (Cons kv m)
  obtain k' v' where kv: "kv = (k', v')" by (cases kv)
  show ?case
  proof (cases "(k, v) \<in> set m")
    case True
    with Cons kv show ?thesis by simp
  next
    case False
    with Cons.prems kv have "k' = k" "v' = v" by auto
    moreover have "CanonicalHeaderKey k \<notin> CanonicalHeaderKey ` fst ` set m"
      using Cons.prems kv \<open>k' = k\<close> by (auto simp: inj_on_def)
    ultimately show ?thesis
      using kv by (simp add: map_of_Header_SetAll_other map_of_Header_Set)
  qed
qed simp

lemma gomap_ok_Header_Set [simp]: "gomap_ok h \<Longrightarrow> gomap_ok (Header_Set k v h)"
  by (simp add: Header_Set_def)

lemma gomap_ok_Header_SetAll [simp]: "gomap_ok h \<Longrightarrow> gomap_ok (Header_SetAll m h)"
  by (induction m arbitrary: h) auto

text \<open>Canonical names are fixed points.\<close>

lemma byte_ascii_upper: "byte (ascii_upper c) = (if 97 \<le> byte c \<and> byte c \<le> (122::nat) then byte c - 32 else byte c)"
  by (auto simp: ascii_upper_def)

lemma byte_ascii_lower: "byte (ascii_lower c) = (if 65 \<le> byte c \<and> byte c \<le> (90::nat) then byte c + 32 else byte c)"
  by (auto simp: ascii_lower_def)

lemma ascii_upper_idem [simp]: "ascii_upper (ascii_upper c) = ascii_upper c"
  by (simp add: ascii_upper_def [of "ascii_upper c"]) (auto simp: byte_ascii_upper split: if_splits)

lemma ascii_lower_idem [simp]: "ascii_lower (ascii_lower c) = ascii_lower c"
  by (simp add: ascii_lower_def [of "ascii_lower c"]) (auto simp: byte_ascii_lower split: if_splits)

lemma is_alnum_upper [simp]: "is_alnum (ascii_upper c) = is_alnum c"
  by (auto simp: is_alnum_def is_digit_def byte_ascii_upper)

lemma is_alnum_lower [simp]: "is_alnum (ascii_lower c) = is_alnum c"
  by (auto simp: is_alnum_def is_digit_def byte_ascii_lower)

lemma ascii_upper_nonalnum: "\<not> is_alnum c \<Longrightarrow> ascii_upper c = c"
  by (auto simp: is_alnum_def ascii_upper_def)

lemma ascii_lower_nonalnum: "\<not> is_alnum c \<Longrightarrow> ascii_lower c = c"
  by (auto simp: is_alnum_def ascii_lower_def)

lemma valid_case [simp]:
  "validHeaderFieldByte (ascii_upper c) = validHeaderFieldByte c"
  "validHeaderFieldByte (ascii_lower c) = validHeaderFieldByte c"
  by (cases "is_alnum c"; simp add: validHeaderFieldByte_def ascii_upper_nonalnum ascii_lower_nonalnum)+

lemma valid_canon_bytes: "list_all validHeaderFieldByte (canon_bytes up s) = list_all validHeaderFieldByte s"
  by (induction s arbitrary: up) (auto simp: Let_def)

lemma canon_bytes_idem: "canon_bytes up (canon_bytes up s) = canon_bytes up s"
  by (induction s arbitrary: up) (auto simp: Let_def)

lemma CanonicalHeaderKey_idem [simp]: "CanonicalHeaderKey (CanonicalHeaderKey k) = CanonicalHeaderKey k"
  by (simp add: CanonicalHeaderKey_def valid_canon_bytes canon_bytes_idem)

section \<open>Requests and responses\<close>

text \<open>A request the proxy sends to a backend; a JSON payload is the value it encodes.\<close>

record breq =
  bmethod :: string
  burl :: string
  bheaders :: hdrs
  bpayload :: "json option"

text \<open>\<^verbatim>\<open>http.NewRequest\<close>: the URL text is parsed, and the request starts without headers.\<close>

definition NewRequest :: "string \<Rightarrow> string \<Rightarrow> json option \<Rightarrow> string + breq" where
  "NewRequest m u p =
     (case url_parse u of
        Inl e \<Rightarrow> Inl e
      | Inr _ \<Rightarrow> Inr \<lparr>bmethod = m, burl = u, bheaders = [], bpayload = p\<rparr>)"

text \<open>A backend's response; \<open>bread_err\<close> says that reading the body failed after these bytes.\<close>

record bresp =
  bstatus :: int
  brheaders :: hdrs
  bbody :: string
  bread_err :: bool

text \<open>A request of a client to the proxy.\<close>

record hreq =
  hmethod :: string
  hheaders :: hdrs
  hbody :: string
  hread_err :: bool
  htls :: bool
  hhost :: string

datatype body = BNone | BJson json | BRaw string

text \<open>The response of the proxy to its client.\<close>

record hresp =
  rstatus :: nat
  rheaders :: hdrs
  rbody :: body

definition new_resp :: hresp where
  "new_resp = \<lparr>rstatus = 200, rheaders = [], rbody = BNone\<rparr>"

section \<open>The outside world\<close>

record io =
  sent :: "breq list"    \<comment> \<open>the requests sent so far, oldest first\<close>
  ticks :: nat           \<comment> \<open>how often the clock was read\<close>
  draws :: nat           \<comment> \<open>how often the random source was read\<close>

text \<open>
  The environment: \<open>transport\<close> is one call of \<^verbatim>\<open>http.Client.Do\<close> (an error or a response),
  \<open>clock\<close> the readings of \<^verbatim>\<open>time.Now\<close> in nanoseconds, \<open>random\<close> the blocks read from
  \<^verbatim>\<open>crypto/rand\<close>, and \<open>propagate\<close> the headers the trace propagator sets on a request. The
  last field, \<open>is_print\<close>, is \<^verbatim>\<open>unicode.IsPrint\<close> beyond ASCII.
\<close>

record env =
  transport :: "breq list \<Rightarrow> breq \<Rightarrow> string + bresp"
  clock :: "nat \<Rightarrow> int"
  random :: "nat \<Rightarrow> string"
  propagate :: "breq list \<Rightarrow> (string, string) gomap"
  is_print :: "nat \<Rightarrow> bool"

definition http_Do :: "env \<Rightarrow> breq \<Rightarrow> io \<Rightarrow> (string + bresp) \<times> io" where
  "http_Do e r w = (transport e (sent w) r, w\<lparr>sent := sent w @ [r]\<rparr>)"

definition time_Now :: "env \<Rightarrow> io \<Rightarrow> int \<times> io" where
  "time_Now e w = (clock e (ticks w), w\<lparr>ticks := Suc (ticks w)\<rparr>)"

definition rand_Read :: "env \<Rightarrow> io \<Rightarrow> string \<times> io" where
  "rand_Read e w = (random e (draws w), w\<lparr>draws := Suc (draws w)\<rparr>)"

definition init_io :: io where
  "init_io = \<lparr>sent = [], ticks = 0, draws = 0\<rparr>"

text \<open>A small world for concrete runs: no host answers, time moves by one at every reading.\<close>

definition quiet_env :: env where
  "quiet_env = \<lparr>transport = (\<lambda>_ _. Inl ''connection refused''), clock = int,
     random = (\<lambda>_. ''0123456789abcdef''), propagate = (\<lambda>_. []), is_print = (\<lambda>_. True)\<rparr>"

definition set_hdr :: "string \<Rightarrow> string \<Rightarrow> hresp \<Rightarrow> hresp" where
  "set_hdr k v w = w\<lparr>rheaders := Header_Set k v (rheaders w)\<rparr>"

lemma sent_http_Do [simp]: "sent (snd (http_Do e r w)) = sent w @ [r]"
  by (simp add: http_Do_def)

lemma sent_time_Now [simp]: "sent (snd (time_Now e w)) = sent w"
  by (simp add: time_Now_def)

lemma sent_rand_Read [simp]: "sent (snd (rand_Read e w)) = sent w"
  by (simp add: rand_Read_def)

text \<open>
  \<open>sends P w w'\<close>: from world \<open>w\<close> to world \<open>w'\<close> requests were only added, and all of them satisfy \<open>P\<close>.
\<close>

definition sends :: "(breq \<Rightarrow> bool) \<Rightarrow> io \<Rightarrow> io \<Rightarrow> bool" where
  "sends P w w' \<longleftrightarrow> (\<exists>qs. sent w' = sent w @ qs \<and> list_all P qs)"

lemma sends_refl [simp, go_intros]: "sends P w w"
  by (simp add: sends_def)

lemma sends_same: "sent w' = sent w \<Longrightarrow> sends P w w'"
  by (simp add: sends_def)

lemma sends_trans [trans]: "sends P w w' \<Longrightarrow> sends P w' w'' \<Longrightarrow> sends P w w''"
  unfolding sends_def by (metis append_assoc list_all_append)

lemma sends_one: "P q \<Longrightarrow> sent w' = sent w @ [q] \<Longrightarrow> sends P w w'"
  by (simp add: sends_def)

lemma sends_mono: "sends P w w' \<Longrightarrow> (\<And>q. P q \<Longrightarrow> Q q) \<Longrightarrow> sends Q w w'"
  unfolding sends_def by (metis list.pred_mono_strong)

lemma sends_none: "sends (\<lambda>_. False) w w' \<longleftrightarrow> sent w' = sent w"
  by (auto simp: sends_def list_all_iff)

lemma sends_all: "sends P w w' \<Longrightarrow> \<exists>qs. sent w' = sent w @ qs \<and> (\<forall>q \<in> set qs. P q)"
  by (simp add: sends_def list_all_iff)

text \<open>The headers after a loop of \<^verbatim>\<open>Header.Set\<close> calls: the last entry for a name wins.\<close>

definition canonical :: "(string \<times> string) list \<Rightarrow> (string \<times> string) list" where
  "canonical m = map (\<lambda>(k, v). (CanonicalHeaderKey k, v)) m"

lemma canonical_append: "canonical (a @ b) = canonical a @ canonical b"
  by (simp add: canonical_def)

lemma map_of_Header_SetAll: "map_of (Header_SetAll m h) = map_of h ++ map_of (rev (canonical m))"
proof (induction m arbitrary: h)
  case (Cons kv m)
  then show ?case
    by (cases kv) (simp add: canonical_def map_add_def fun_eq_iff map_of_Header_Set split: option.split)
qed (simp add: canonical_def)

end
