(* ===== verification/Auth.thy ===== *)
theory Auth
  imports Config Go_Http
begin

text \<open>
  Verification of bearer tokens (\<^verbatim>\<open>internal/auth/auth.go\<close>): from a request to the groups of its
  caller. The JWT library, the JWKS client, the file system and the PEM and PKIX decoders are not
  part of the program; they are parameters, collected in the records \<open>jwtlib\<close> and \<open>keylib\<close>.
\<close>

section \<open>Data\<close>

text \<open>A claim as the Go type switches tell them apart; \<open>COther\<close> is a number, a boolean, null or an
  object.\<close>

datatype claim = CStr string | CStrs "string list" | CArr "claim list" | COther

type_synonym MapClaims = "(string, claim) gomap"

datatype auth_cause =
    MissingAuthorization
  | NotBearer
  | InvalidToken string
  | AudienceNotAccepted "string list" "string list"
  | MissingClaim string
  | UnexpectedClaimType string

datatype auth_error = ErrUnauthorized auth_cause | ErrInsufficientScope | OtherError string

datatype ParserOption = WithExpirationRequired | WithIssuer string | WithValidMethods "string list"

datatype static_key = HMACKey string | PublicKey string

datatype Keyfunc = StaticKey static_key | Jwks string

record jwtlib =
  ParseWithClaims :: "string \<Rightarrow> Keyfunc \<Rightarrow> ParserOption list \<Rightarrow> string + MapClaims"
  ParseUnverified :: "string \<Rightarrow> string + MapClaims"

record keylib =
  ReadFile :: "string \<Rightarrow> string + string"
  pem_Decode :: "string \<Rightarrow> string option"
  ParsePKIXPublicKey :: "string \<Rightarrow> string + string"
  NewDefaultCtx :: "string \<Rightarrow> string + unit"

record jwtVerifier =
  jv_groupsClaim :: string
  jv_keyfunc :: Keyfunc
  jv_parserOpts :: "ParserOption list"
  jv_validAlgs :: "string list"
  jv_scopesSupported :: "string list"
  jv_audiences :: "string list"

record insecureVerifier =
  iv_groupsClaim :: string
  iv_scopesSupported :: "string list"
  iv_audiences :: "string list"

datatype Verifier = JwtVerifier jwtVerifier | InsecureVerifier insecureVerifier

section \<open>Reading a token\<close>

definition bearerToken :: "hreq \<Rightarrow> auth_error + string" where
  "bearerToken r =
     (let h = Header_Get (hheaders r) ''Authorization''; prefix = ''Bearer '' in
      if h = [] then Inl (ErrUnauthorized MissingAuthorization)
      else if length h < length prefix \<or> \<not> EqualFold_ascii (take (length prefix) h) prefix
      then Inl (ErrUnauthorized NotBearer)
      else Inr (TrimSpace (drop (length prefix) h)))"

text \<open>\<^verbatim>\<open>for _, item := range v { if s, ok := item.(string); ok { ... append(..., s) } }\<close>\<close>

fun string_items :: "claim list \<Rightarrow> string list" where
  "string_items [] = []"
| "string_items (CStr s # cs) = s # string_items cs"
| "string_items (_ # cs) = string_items cs"

definition parserOpts :: "AuthConfig \<Rightarrow> ParserOption list" where
  "parserOpts c = [WithExpirationRequired] @ (if Issuer c \<noteq> [] then [WithIssuer (Issuer c)] else [])"

definition acceptedAudiences :: "AuthConfig \<Rightarrow> string list" where
  "acceptedAudiences c = (if Audience c \<noteq> [] then [Audience c] else []) @ AdditionalAudiences c"

definition checkAudience :: "MapClaims \<Rightarrow> string list \<Rightarrow> auth_error + unit" where
  "checkAudience claims accepted =
     (if accepted = [] then Inr ()
      else (let tokenAuds =
              (case map_of claims ''aud'' of
                 Some (CStr aud) \<Rightarrow> [aud]
               | Some (CArr aud) \<Rightarrow> string_items aud
               | Some (CStrs aud) \<Rightarrow> aud
               | _ \<Rightarrow> [])
            in if list_ex (\<lambda>a. a \<in> set accepted) tokenAuds then Inr ()
               else Inl (ErrUnauthorized (AudienceNotAccepted tokenAuds accepted))))"

definition hasRequiredScope :: "MapClaims \<Rightarrow> string list \<Rightarrow> bool" where
  "hasRequiredScope claims required =
     (if required = [] then True
      else case (case map_of claims ''scope'' of Some c \<Rightarrow> Some c | None \<Rightarrow> map_of claims ''scp'') of
             None \<Rightarrow> False
           | Some rawScope \<Rightarrow>
               (let tokenScopes =
                  (case rawScope of
                     CStr v \<Rightarrow> Fields v
                   | CStrs v \<Rightarrow> v
                   | CArr v \<Rightarrow> string_items v
                   | COther \<Rightarrow> [])
                in list_ex (\<lambda>req. list_ex (\<lambda>tok. req = tok) tokenScopes) required))"

definition extractGroups :: "string \<Rightarrow> MapClaims \<Rightarrow> auth_error + string list" where
  "extractGroups groupsClaim claims =
     (case map_of claims groupsClaim of
        None \<Rightarrow> Inl (ErrUnauthorized (MissingClaim groupsClaim))
      | Some (CStr v) \<Rightarrow> if v = [] then Inr [] else Inr [v]
      | Some (CStrs v) \<Rightarrow> Inr v
      | Some (CArr v) \<Rightarrow> Inr (string_items v)
      | Some COther \<Rightarrow> Inl (ErrUnauthorized (UnexpectedClaimType groupsClaim)))"

definition jwtVerifier_Groups :: "jwtlib \<Rightarrow> jwtVerifier \<Rightarrow> hreq \<Rightarrow> auth_error + string list" where
  "jwtVerifier_Groups lib v r =
     (case bearerToken r of
        Inl e \<Rightarrow> Inl e
      | Inr tokenStr \<Rightarrow>
          (let opts = jv_parserOpts v @ (if jv_validAlgs v \<noteq> [] then [WithValidMethods (jv_validAlgs v)] else [])
           in case ParseWithClaims lib tokenStr (jv_keyfunc v) opts of
                Inl e \<Rightarrow> Inl (ErrUnauthorized (InvalidToken e))
              | Inr claims \<Rightarrow>
                  (case checkAudience claims (jv_audiences v) of
                     Inl e \<Rightarrow> Inl e
                   | Inr _ \<Rightarrow>
                       if jv_scopesSupported v \<noteq> [] \<and> \<not> hasRequiredScope claims (jv_scopesSupported v)
                       then Inl ErrInsufficientScope
                       else extractGroups (jv_groupsClaim v) claims)))"

definition insecureVerifier_Groups :: "jwtlib \<Rightarrow> insecureVerifier \<Rightarrow> hreq \<Rightarrow> auth_error + string list" where
  "insecureVerifier_Groups lib v r =
     (case bearerToken r of
        Inl e \<Rightarrow> Inl e
      | Inr tokenStr \<Rightarrow>
          (case ParseUnverified lib tokenStr of
             Inl e \<Rightarrow> Inl (ErrUnauthorized (InvalidToken e))
           | Inr claims \<Rightarrow>
               (case checkAudience claims (iv_audiences v) of
                  Inl e \<Rightarrow> Inl e
                | Inr _ \<Rightarrow>
                    if iv_scopesSupported v \<noteq> [] \<and> \<not> hasRequiredScope claims (iv_scopesSupported v)
                    then Inl ErrInsufficientScope
                    else extractGroups (iv_groupsClaim v) claims)))"

text \<open>The method of the interface \<^verbatim>\<open>auth.Verifier\<close>.\<close>

definition Groups :: "jwtlib \<Rightarrow> Verifier \<Rightarrow> hreq \<Rightarrow> auth_error + string list" where
  "Groups lib v r =
     (case v of
        JwtVerifier jv \<Rightarrow> jwtVerifier_Groups lib jv r
      | InsecureVerifier iv \<Rightarrow> insecureVerifier_Groups lib iv r)"

section \<open>Construction\<close>

definition hmac_algs :: "string list" where
  "hmac_algs = [''HS256'', ''HS384'', ''HS512'']"

definition asymmetric_algs :: "string list" where
  "asymmetric_algs =
     [''RS256'', ''RS384'', ''RS512'', ''ES256'', ''ES384'', ''ES512'', ''PS256'', ''PS384'', ''PS512'']"

definition loadStaticKey :: "keylib \<Rightarrow> AuthConfig \<Rightarrow> string + static_key \<times> string list" where
  "loadStaticKey k c =
     (if HMACSecret c \<noteq> [] then Inr (HMACKey (HMACSecret c), hmac_algs)
      else case ReadFile k (PublicKeyPEMFile c) of
             Inl e \<Rightarrow> Inl (''read public key: '' @ e)
           | Inr pemBytes \<Rightarrow>
               (case pem_Decode k pemBytes of
                  None \<Rightarrow> Inl (''public key file is not valid PEM: '' @ PublicKeyPEMFile c)
                | Some block \<Rightarrow>
                    (case ParsePKIXPublicKey k block of
                       Inl e \<Rightarrow> Inl (''parse public key: '' @ e)
                     | Inr key \<Rightarrow> Inr (PublicKey key, asymmetric_algs))))"

definition discoverJWKSURL :: "env \<Rightarrow> string \<Rightarrow> io \<Rightarrow> (string + string) \<times> io" where
  "discoverJWKSURL e issuer w =
     (if issuer = [] then (Inl ''auth: jwks_url is empty and no issuer is set for OIDC discovery'', w)
      else case url_parse issuer of
             Inl err \<Rightarrow> (Inl (''auth: invalid issuer: '' @ err), w)
           | Inr base \<Rightarrow>
               (let base1 = base\<lparr>url_path := TrimRight_char (CHR ''/'') (url_path base) @ ''/.well-known/openid-configuration''\<rparr>;
                    discoveryURL = url_String base1
                in case NewRequest ''GET'' discoveryURL None of
                     Inl err \<Rightarrow> (Inl (''auth: build discovery request: '' @ err), w)
                   | Inr req \<Rightarrow>
                       (case http_Do e (req\<lparr>bheaders := Header_Set ''Accept'' ''application/json'' (bheaders req)\<rparr>) w of
                          (Inl err, w1) \<Rightarrow> (Inl (''auth: fetch OIDC discovery: '' @ err), w1)
                        | (Inr resp, w1) \<Rightarrow>
                            (if bstatus resp \<noteq> 200 then (Inl ''auth: OIDC discovery returned status'', w1)
                             else case json_decode_first (bbody resp) of
                                    Some (JObj kvs) \<Rightarrow>
                                      (case string_field ''jwks_uri'' kvs of
                                         None \<Rightarrow> (Inl ''auth: decode OIDC discovery'', w1)
                                       | Some u \<Rightarrow>
                                           if u = [] then (Inl ''auth: OIDC discovery has no jwks_uri'', w1)
                                           else (Inr u, w1))
                                  | Some JNull \<Rightarrow> (Inl ''auth: OIDC discovery has no jwks_uri'', w1)
                                  | _ \<Rightarrow> (Inl ''auth: decode OIDC discovery'', w1)))))"

definition NewVerifier :: "keylib \<Rightarrow> env \<Rightarrow> AuthConfig \<Rightarrow> io \<Rightarrow> (string + Verifier) \<times> io" where
  "NewVerifier k e c w =
     (if Mode c = AuthModeInsecure then
        (Inr (InsecureVerifier \<lparr>iv_groupsClaim = GroupsClaim c, iv_scopesSupported = ScopesSupported c,
                                iv_audiences = acceptedAudiences c\<rparr>), w)
      else if Mode c = AuthModeStatic then
        (case loadStaticKey k c of
           Inl err \<Rightarrow> (Inl err, w)
         | Inr (key, alg) \<Rightarrow>
             (Inr (JwtVerifier \<lparr>jv_groupsClaim = GroupsClaim c, jv_keyfunc = StaticKey key,
                 jv_parserOpts = parserOpts c, jv_validAlgs = alg, jv_scopesSupported = ScopesSupported c,
                 jv_audiences = acceptedAudiences c\<rparr>), w))
      else if Mode c = AuthModeJWKS then
        (case (if JWKSURL c = [] then discoverJWKSURL e (Issuer c) w else (Inr (JWKSURL c), w)) of
           (Inl err, w1) \<Rightarrow> (Inl err, w1)
         | (Inr jwksURL, w1) \<Rightarrow>
             (case NewDefaultCtx k jwksURL of
                Inl err \<Rightarrow> (Inl (''init jwks: '' @ err), w1)
              | Inr _ \<Rightarrow>
                  (Inr (JwtVerifier \<lparr>jv_groupsClaim = GroupsClaim c, jv_keyfunc = Jwks jwksURL,
                      jv_parserOpts = parserOpts c, jv_validAlgs = [], jv_scopesSupported = ScopesSupported c,
                      jv_audiences = acceptedAudiences c\<rparr>), w1)))
      else (Inl (''unsupported auth mode '' @ Mode c), w))"

section \<open>The contract of a verifier\<close>

text \<open>
  What the handler relies on, for every implementation of the interface: a failure is one of the
  two kinds it answers with 401 and 403, the decision depends on the request only through the
  Authorization header, and a request without that header is refused.
\<close>

locale token_verifier =
  fixes groups :: "'v \<Rightarrow> hreq \<Rightarrow> auth_error + string list"
  assumes no_other_error: "groups v r \<noteq> Inl (OtherError m)"
    and header_only: "Header_Get (hheaders r) ''Authorization'' = Header_Get (hheaders r') ''Authorization'' \<Longrightarrow>
      groups v r = groups v r'"
    and anonymous: "Header_Get (hheaders r) ''Authorization'' = [] \<Longrightarrow>
      groups v r = Inl (ErrUnauthorized MissingAuthorization)"
begin

lemma error_cases:
  assumes "groups v r = Inl e"
  obtains (unauthorized) c where "e = ErrUnauthorized c" | (scope) "e = ErrInsufficientScope"
  using assms no_other_error by (cases e) auto

lemma granted_has_header: "groups v r = Inr gs \<Longrightarrow> Header_Get (hheaders r) ''Authorization'' \<noteq> []"
  using anonymous by fastforce

lemma other_headers_ignored:
  "CanonicalHeaderKey k \<noteq> ''Authorization'' \<Longrightarrow> groups v (r\<lparr>hheaders := Header_Set k x (hheaders r)\<rparr>) = groups v r"
proof (rule header_only)
  assume "CanonicalHeaderKey k \<noteq> ''Authorization''"
  moreover have "CanonicalHeaderKey ''Authorization'' = ''Authorization''" by code_simp
  ultimately show "Header_Get (hheaders (r\<lparr>hheaders := Header_Set k x (hheaders r)\<rparr>)) ''Authorization''
      = Header_Get (hheaders r) ''Authorization''"
    by (simp add: Header_Get_def map_of_Header_Set)
qed

end

lemma bearer_no_other [simp]: "bearerToken r \<noteq> Inl (OtherError m)"
  by (simp add: bearerToken_def Let_def)

lemma audience_no_other [simp]: "checkAudience c a \<noteq> Inl (OtherError m)"
  by (simp add: checkAudience_def Let_def)

lemma groups_no_other [simp]: "extractGroups g c \<noteq> Inl (OtherError m)"
  by (simp add: extractGroups_def split: option.split claim.split)

lemma bearer_header_only:
  "Header_Get (hheaders r) ''Authorization'' = Header_Get (hheaders r') ''Authorization'' \<Longrightarrow> bearerToken r = bearerToken r'"
  by (simp add: bearerToken_def)

lemma bearer_anonymous:
  "Header_Get (hheaders r) ''Authorization'' = [] \<Longrightarrow> bearerToken r = Inl (ErrUnauthorized MissingAuthorization)"
  by (simp add: bearerToken_def)

lemma jwtVerifier_no_other: "jwtVerifier_Groups lib v r \<noteq> Inl (OtherError m)"
  by (auto simp: jwtVerifier_Groups_def Let_def split: sum.split dest: bearer_no_other [THEN notE])

lemma insecureVerifier_no_other: "insecureVerifier_Groups lib v r \<noteq> Inl (OtherError m)"
  by (auto simp: insecureVerifier_Groups_def split: sum.split dest: bearer_no_other [THEN notE])

interpretation jwt: token_verifier "jwtVerifier_Groups lib" for lib
proof unfold_locales
  show "jwtVerifier_Groups lib v r \<noteq> Inl (OtherError m)" for v r m by (rule jwtVerifier_no_other)
qed (simp_all add: jwtVerifier_Groups_def bearer_anonymous cong: bearer_header_only)

interpretation insecure: token_verifier "insecureVerifier_Groups lib" for lib
proof unfold_locales
  show "insecureVerifier_Groups lib v r \<noteq> Inl (OtherError m)" for v r m by (rule insecureVerifier_no_other)
qed (simp_all add: insecureVerifier_Groups_def bearer_anonymous cong: bearer_header_only)

interpretation verifier: token_verifier "Groups lib" for lib
proof unfold_locales
  show "Groups lib v r \<noteq> Inl (OtherError m)" for v r m
    using jwt.no_other_error insecure.no_other_error by (cases v) (simp_all add: Groups_def)
  show "Groups lib v r = Groups lib v r'"
    if "Header_Get (hheaders r) ''Authorization'' = Header_Get (hheaders r') ''Authorization''" for v r r'
    using jwt.header_only [OF that] insecure.header_only [OF that] by (cases v) (simp_all add: Groups_def)
  show "Groups lib v r = Inl (ErrUnauthorized MissingAuthorization)"
    if "Header_Get (hheaders r) ''Authorization'' = []" for v r
    using jwt.anonymous [OF that] insecure.anonymous [OF that] by (cases v) (simp_all add: Groups_def)
qed

section \<open>What a granted request has shown\<close>

text \<open>The strings a claim carries, whichever of its shapes it has.\<close>

definition claim_strings :: "claim \<Rightarrow> string list" where
  "claim_strings c = (case c of CStr s \<Rightarrow> [s] | CStrs ss \<Rightarrow> ss | CArr cs \<Rightarrow> string_items cs | COther \<Rightarrow> [])"

definition scope_strings :: "claim \<Rightarrow> string list" where
  "scope_strings c = (case c of CStr s \<Rightarrow> Fields s | _ \<Rightarrow> claim_strings c)"

definition audience_ok :: "string list \<Rightarrow> MapClaims \<Rightarrow> bool" where
  "audience_ok accepted cl \<longleftrightarrow>
     accepted = [] \<or> (\<exists>c a. map_of cl ''aud'' = Some c \<and> a \<in> set (claim_strings c) \<and> a \<in> set accepted)"

definition scope_ok :: "string list \<Rightarrow> MapClaims \<Rightarrow> bool" where
  "scope_ok required cl \<longleftrightarrow>
     required = []
     \<or> (\<exists>c s. (map_of cl ''scope'' = Some c \<or> map_of cl ''scope'' = None \<and> map_of cl ''scp'' = Some c)
          \<and> s \<in> set (scope_strings c) \<and> s \<in> set required)"

definition groups_of :: "string \<Rightarrow> MapClaims \<Rightarrow> string list option" where
  "groups_of claim_name cl =
     (case map_of cl claim_name of
        None \<Rightarrow> None
      | Some COther \<Rightarrow> None
      | Some c \<Rightarrow> Some (if c = CStr [] then [] else claim_strings c))"

lemma checkAudience_eq:
  "checkAudience cl accepted = Inr u \<longleftrightarrow>
     accepted = [] \<or> (case map_of cl ''aud'' of None \<Rightarrow> False
                      | Some c \<Rightarrow> list_ex (\<lambda>a. a \<in> set accepted) (claim_strings c))"
  by (auto simp: checkAudience_def claim_strings_def Let_def split: option.split claim.split)

lemma checkAudience_iff: "checkAudience cl accepted = Inr u \<longleftrightarrow> audience_ok accepted cl"
  by (cases "map_of cl ''aud''") (auto simp: checkAudience_eq audience_ok_def list_ex_iff)

lemma hasRequiredScope_eq:
  "hasRequiredScope cl required \<longleftrightarrow>
     required = [] \<or> (case (case map_of cl ''scope'' of Some c \<Rightarrow> Some c | None \<Rightarrow> map_of cl ''scp'') of None \<Rightarrow> False
                      | Some c \<Rightarrow> list_ex (\<lambda>s. s \<in> set required) (scope_strings c))"
  by (auto simp: hasRequiredScope_def scope_strings_def claim_strings_def list_ex_iff Let_def
      split: option.split claim.split)

lemma hasRequiredScope_iff: "hasRequiredScope cl required \<longleftrightarrow> scope_ok required cl"
  by (cases "map_of cl ''scope''"; cases "map_of cl ''scp''")
    (auto simp: hasRequiredScope_eq scope_ok_def list_ex_iff)

lemma extractGroups_iff: "extractGroups g cl = Inr gs \<longleftrightarrow> groups_of g cl = Some gs"
  by (auto simp: extractGroups_def groups_of_def claim_strings_def split: option.splits claim.splits if_splits)

text \<open>The claims a verifier accepts for a token, before it looks at audience and scope.\<close>

definition verified_claims :: "jwtlib \<Rightarrow> Verifier \<Rightarrow> string \<Rightarrow> string + MapClaims" where
  "verified_claims lib v tok =
     (case v of
        JwtVerifier jv \<Rightarrow>
          ParseWithClaims lib tok (jv_keyfunc jv)
            (jv_parserOpts jv @ (if jv_validAlgs jv \<noteq> [] then [WithValidMethods (jv_validAlgs jv)] else []))
      | InsecureVerifier _ \<Rightarrow> ParseUnverified lib tok)"

definition ver_audiences :: "Verifier \<Rightarrow> string list" where
  "ver_audiences v = (case v of JwtVerifier jv \<Rightarrow> jv_audiences jv | InsecureVerifier iv \<Rightarrow> iv_audiences iv)"

definition ver_scopes :: "Verifier \<Rightarrow> string list" where
  "ver_scopes v = (case v of JwtVerifier jv \<Rightarrow> jv_scopesSupported jv | InsecureVerifier iv \<Rightarrow> iv_scopesSupported iv)"

definition ver_claim :: "Verifier \<Rightarrow> string" where
  "ver_claim v = (case v of JwtVerifier jv \<Rightarrow> jv_groupsClaim jv | InsecureVerifier iv \<Rightarrow> iv_groupsClaim iv)"

lemmas ver_defs = verified_claims_def ver_audiences_def ver_scopes_def ver_claim_def

lemma Groups_eq:
  "Groups lib v r =
     (case bearerToken r of
        Inl e \<Rightarrow> Inl e
      | Inr tok \<Rightarrow>
          (case verified_claims lib v tok of
             Inl e \<Rightarrow> Inl (ErrUnauthorized (InvalidToken e))
           | Inr cl \<Rightarrow>
               (case checkAudience cl (ver_audiences v) of
                  Inl e \<Rightarrow> Inl e
                | Inr _ \<Rightarrow> if scope_ok (ver_scopes v) cl then extractGroups (ver_claim v) cl
                          else Inl ErrInsufficientScope)))"
proof -
  have "ss \<noteq> [] \<and> \<not> scope_ok ss cl \<longleftrightarrow> \<not> scope_ok ss cl" for ss cl by (auto simp: scope_ok_def)
  then show ?thesis
    by (cases v) (simp_all add: Groups_def jwtVerifier_Groups_def insecureVerifier_Groups_def ver_defs
        hasRequiredScope_iff Let_def split: sum.split)
qed

lemma Groups_Inr:
  "Groups lib v r = Inr gs \<longleftrightarrow>
     (\<exists>tok cl. bearerToken r = Inr tok \<and> verified_claims lib v tok = Inr cl \<and> audience_ok (ver_audiences v) cl
        \<and> scope_ok (ver_scopes v) cl \<and> groups_of (ver_claim v) cl = Some gs)"
  unfolding Groups_eq
  by (auto simp: extractGroups_iff split: sum.splits dest: checkAudience_iff [THEN iffD1] checkAudience_iff [THEN iffD2])

text \<open>C8. Either verifier grants exactly the groups of the groups claim, and exactly when the
  Authorization header is a bearer token, the JWT library accepts it, the audience claim has a value
  in common with the configured audiences (unless none is configured) and the scope claim (or, in
  its absence, \<open>scp\<close>) has one in common with the configured scopes (unless none is configured).\<close>

theorem Groups_granted_iff:
  "Groups lib v r = Inr gs \<longleftrightarrow>
     (\<exists>tok cl. bearerToken r = Inr tok \<and> verified_claims lib v tok = Inr cl \<and> audience_ok (ver_audiences v) cl
        \<and> scope_ok (ver_scopes v) cl \<and> groups_of (ver_claim v) cl = Some gs)"
  by (rule Groups_Inr)

text \<open>
  The documented effect of the options the program passes to the JWT library: a token accepted
  under \<^verbatim>\<open>WithExpirationRequired\<close> has an expiry, one accepted under \<^verbatim>\<open>WithIssuer\<close> has that
  issuer, and one accepted under \<^verbatim>\<open>WithValidMethods\<close> was signed with one of those algorithms.
\<close>

definition jwt_contract :: "jwtlib \<Rightarrow> (string \<Rightarrow> string) \<Rightarrow> bool" where
  "jwt_contract lib alg_of \<longleftrightarrow>
     (\<forall>tok kf opts cl. ParseWithClaims lib tok kf opts = Inr cl \<longrightarrow>
        (WithExpirationRequired \<in> set opts \<longrightarrow> map_of cl ''exp'' \<noteq> None)
        \<and> (\<forall>i. WithIssuer i \<in> set opts \<longrightarrow> map_of cl ''iss'' = Some (CStr i))
        \<and> (\<forall>ms. WithValidMethods ms \<in> set opts \<longrightarrow> alg_of tok \<in> set ms))"

lemma NewVerifier_jwt:
  assumes "fst (NewVerifier k e c w) = Inr v" and "Mode c \<noteq> AuthModeInsecure"
  shows "\<exists>kf algs. v = JwtVerifier \<lparr>jv_groupsClaim = GroupsClaim c, jv_keyfunc = kf,
      jv_parserOpts = parserOpts c, jv_validAlgs = algs, jv_scopesSupported = ScopesSupported c,
      jv_audiences = acceptedAudiences c\<rparr>
    \<and> (Mode c = AuthModeStatic \<longrightarrow> algs = (if HMACSecret c = [] then asymmetric_algs else hmac_algs))"
proof (cases "Mode c = AuthModeStatic")
  case True
  with assms show ?thesis
    by (auto simp: NewVerifier_def loadStaticKey_def split: sum.splits option.splits if_splits)
next
  case False
  with assms show ?thesis
    by (auto simp: NewVerifier_def split: sum.splits prod.splits if_splits)
qed

lemma alg_families_disjoint: "a \<in> set asymmetric_algs \<Longrightarrow> a \<notin> set hmac_algs"
  by (auto simp: asymmetric_algs_def hmac_algs_def)

lemma static_algs: "asymmetric_algs \<noteq> []" "hmac_algs \<noteq> []"
  by (simp_all add: asymmetric_algs_def hmac_algs_def)

text \<open>C9. Outside the insecure mode a grant means: the token has an expiry, comes from the configured
  issuer (when one is configured), passes the audience and scope checks of the configuration, and in
  static mode is signed with an algorithm of the family of the configured key, so a public key can
  never be used as an HMAC secret.\<close>

theorem grant_requires_configured_checks:
  assumes "fst (NewVerifier k e c w) = Inr v" and "Mode c \<noteq> AuthModeInsecure"
    and "jwt_contract lib alg_of" and "Groups lib v r = Inr gs"
  shows "\<exists>tok cl. bearerToken r = Inr tok \<and> verified_claims lib v tok = Inr cl
    \<and> map_of cl ''exp'' \<noteq> None \<and> (Issuer c \<noteq> [] \<longrightarrow> map_of cl ''iss'' = Some (CStr (Issuer c)))
    \<and> audience_ok (acceptedAudiences c) cl \<and> scope_ok (ScopesSupported c) cl \<and> groups_of (GroupsClaim c) cl = Some gs
    \<and> (Mode c = AuthModeStatic \<longrightarrow> (alg_of tok \<in> set hmac_algs \<longleftrightarrow> HMACSecret c \<noteq> []))"
proof -
  obtain kf algs where v: "v = JwtVerifier \<lparr>jv_groupsClaim = GroupsClaim c, jv_keyfunc = kf,
      jv_parserOpts = parserOpts c, jv_validAlgs = algs, jv_scopesSupported = ScopesSupported c,
      jv_audiences = acceptedAudiences c\<rparr>"
    and algs: "Mode c = AuthModeStatic \<Longrightarrow> algs = (if HMACSecret c = [] then asymmetric_algs else hmac_algs)"
    using NewVerifier_jwt [OF assms(1,2)] by metis
  obtain tok cl where g: "bearerToken r = Inr tok" "verified_claims lib v tok = Inr cl"
    "audience_ok (ver_audiences v) cl" "scope_ok (ver_scopes v) cl" "groups_of (ver_claim v) cl = Some gs"
    using assms(4) unfolding Groups_Inr by blast
  define opts where "opts = parserOpts c @ (if algs \<noteq> [] then [WithValidMethods algs] else [])"
  have "ParseWithClaims lib tok kf opts = Inr cl"
    using g(2) by (cases "algs = []") (simp_all add: v verified_claims_def opts_def)
  then have lib: "WithExpirationRequired \<in> set opts \<Longrightarrow> map_of cl ''exp'' \<noteq> None"
    "\<And>i. WithIssuer i \<in> set opts \<Longrightarrow> map_of cl ''iss'' = Some (CStr i)"
    "\<And>ms. WithValidMethods ms \<in> set opts \<Longrightarrow> alg_of tok \<in> set ms"
    using assms(3) unfolding jwt_contract_def by blast+
  have "map_of cl ''exp'' \<noteq> None" by (rule lib(1)) (simp add: opts_def parserOpts_def)
  moreover have "Issuer c \<noteq> [] \<longrightarrow> map_of cl ''iss'' = Some (CStr (Issuer c))"
    by (intro impI lib(2)) (simp add: opts_def parserOpts_def)
  moreover have "alg_of tok \<in> set hmac_algs \<longleftrightarrow> HMACSecret c \<noteq> []" if "Mode c = AuthModeStatic"
  proof -
    have "alg_of tok \<in> set algs"
      by (rule lib(3)) (use algs [OF that] static_algs in \<open>simp add: opts_def\<close>)
    with algs [OF that] alg_families_disjoint show ?thesis by auto
  qed
  ultimately show ?thesis using g by (auto simp: v ver_defs)
qed

text \<open>A static configuration, a library that accepts one token, and a request that carries it.\<close>

definition example_auth :: AuthConfig where
  "example_auth = \<lparr>Mode = AuthModeStatic, GroupsClaim = ''groups'', Issuer = ''idp'', Audience = ''mcp'',
     AdditionalAudiences = [], ScopesSupported = [''tools''], JWKSURL = [], HMACSecret = ''s'', PublicKeyPEMFile = []\<rparr>"

definition example_claims :: MapClaims where
  "example_claims = [(''exp'', COther), (''iss'', CStr ''idp''), (''aud'', CArr [COther, CStr ''mcp'']),
     (''scope'', CStr ''openid tools''), (''groups'', CArr [CStr ''dev'', CStr ''ops''])]"

definition example_lib :: jwtlib where
  "example_lib = \<lparr>ParseWithClaims = (\<lambda>tok kf opts.
       if tok = ''jwt'' \<and> opts = [WithExpirationRequired, WithIssuer ''idp'', WithValidMethods hmac_algs]
       then Inr example_claims else Inl ''invalid token''), ParseUnverified = (\<lambda>_. Inl ''unused'')\<rparr>"

definition no_keylib :: keylib where
  "no_keylib = \<lparr>ReadFile = (\<lambda>_. Inl ''no file''), pem_Decode = (\<lambda>_. None),
     ParsePKIXPublicKey = (\<lambda>_. Inl ''no key''), NewDefaultCtx = (\<lambda>_. Inr ())\<rparr>"

definition example_request :: hreq where
  "example_request = \<lparr>hmethod = ''POST'', hheaders = [(''Authorization'', ''bearer  jwt '')], hbody = [],
     hread_err = False, htls = False, hhost = ''proxy''\<rparr>"

definition example_verifier :: Verifier where
  "example_verifier = JwtVerifier \<lparr>jv_groupsClaim = ''groups'', jv_keyfunc = StaticKey (HMACKey ''s''),
     jv_parserOpts = parserOpts example_auth, jv_validAlgs = hmac_algs, jv_scopesSupported = [''tools''],
     jv_audiences = [''mcp'']\<rparr>"

lemma example_contract: "jwt_contract example_lib (\<lambda>_. ''HS256'')"
proof -
  have "opts = [WithExpirationRequired, WithIssuer ''idp'', WithValidMethods hmac_algs] \<and> cl = example_claims"
    if "ParseWithClaims example_lib tok kf opts = Inr cl" for tok kf opts cl
    using that by (simp add: example_lib_def split: if_splits)
  moreover have "map_of example_claims ''exp'' = Some COther" "map_of example_claims ''iss'' = Some (CStr ''idp'')"
    by code_simp+
  moreover have "''HS256'' \<in> set hmac_algs" by code_simp
  ultimately show ?thesis unfolding jwt_contract_def by fastforce
qed

lemma example_granted: "Groups example_lib example_verifier example_request = Inr [''dev'', ''ops'']"
  by code_simp

theorem grant_requires_configured_checks_witness:
  "\<exists>tok cl. bearerToken example_request = Inr tok \<and> verified_claims example_lib example_verifier tok = Inr cl
     \<and> map_of cl ''iss'' = Some (CStr ''idp'')"
proof -
  have "fst (NewVerifier no_keylib quiet_env example_auth init_io) = Inr example_verifier"
    "Mode example_auth \<noteq> AuthModeInsecure" "Issuer example_auth = ''idp''"
    by code_simp+
  with grant_requires_configured_checks [OF _ _ example_contract example_granted, of no_keylib quiet_env example_auth init_io]
  show ?thesis by auto
qed

section \<open>Discovery of the key set\<close>

definition discovery_request :: "url \<Rightarrow> breq" where
  "discovery_request base =
     \<lparr>bmethod = ''GET'',
      burl = url_String (base\<lparr>url_path := TrimRight_char (CHR ''/'') (url_path base) @ ''/.well-known/openid-configuration''\<rparr>),
      bheaders = [(''Accept'', ''application/json'')], bpayload = None\<rparr>"

text \<open>C37. A key-set address obtained by discovery is the non-empty \<open>jwks_uri\<close> of the document the
  issuer serves, with status 200, at its well-known path; it costs that one request, which carries no
  header but \<^verbatim>\<open>Accept\<close>.\<close>

theorem discovery_sound:
  assumes "fst (discoverJWKSURL e issuer w) = Inr u"
  shows "\<exists>base resp kvs. url_parse issuer = Inr base
    \<and> snd (discoverJWKSURL e issuer w) = w\<lparr>sent := sent w @ [discovery_request base]\<rparr>
    \<and> transport e (sent w) (discovery_request base) = Inr resp \<and> bstatus resp = 200
    \<and> json_decode_first (bbody resp) = Some (JObj kvs) \<and> string_field ''jwks_uri'' kvs = Some u \<and> u \<noteq> []"
proof -
  have accept: "Header_Set ''Accept'' ''application/json'' [] = [(''Accept'', ''application/json'')]"
    by code_simp
  from assms obtain base where base: "url_parse issuer = Inr base" and issuer: "issuer \<noteq> []"
    by (auto simp: discoverJWKSURL_def split: if_splits sum.splits)
  then show ?thesis
    using assms
    by (auto simp: discoverJWKSURL_def Let_def NewRequest_def accept http_Do_def discovery_request_def
        split: if_splits sum.splits option.splits json.splits)
qed

definition idp_env :: env where
  "idp_env = quiet_env\<lparr>transport := \<lambda>_ q. Inr \<lparr>bstatus = 200, brheaders = [],
     bbody = ''{'' @ [CHR 0x22] @ ''jwks_uri'' @ [CHR 0x22] @ '':'' @ [CHR 0x22] @ ''k'' @ [CHR 0x22] @ ''} trailing'',
     bread_err = False\<rparr>\<rparr>"

theorem discovery_sound_witness:
  "map burl (sent (snd (discoverJWKSURL idp_env ''https://idp/realm/'' init_io)))
     = [''https://idp/realm/.well-known/openid-configuration'']
   \<and> (\<exists>base. url_parse ''https://idp/realm/'' = Inr base
        \<and> sent (snd (discoverJWKSURL idp_env ''https://idp/realm/'' init_io)) = [discovery_request base])"
proof -
  have "fst (discoverJWKSURL idp_env ''https://idp/realm/'' init_io) = Inr ''k''" by code_simp
  from discovery_sound [OF this] obtain base where "url_parse ''https://idp/realm/'' = Inr base"
    and "snd (discoverJWKSURL idp_env ''https://idp/realm/'' init_io) = init_io\<lparr>sent := sent init_io @ [discovery_request base]\<rparr>"
    by blast
  moreover have "map burl (sent (snd (discoverJWKSURL idp_env ''https://idp/realm/'' init_io)))
      = [''https://idp/realm/.well-known/openid-configuration'']"
    by code_simp
  ultimately show ?thesis by (simp add: init_io_def)
qed

end
