(* ===== verification/Registry.thy ===== *)
theory Registry
  imports Config Go_Url
begin

text \<open>
  The tenant registry (\<^verbatim>\<open>internal/registry/registry.go\<close>): groups authorize, tenant selects, backend
  executes. The registry is built once from the configuration and never changes; its map from
  tenant ids to tenants is a list whose order is the order in which the runtime ranges over it.
\<close>

record Backend =
  b_Name :: string
  b_URL :: url
  b_Headers :: "(string, string) gomap"
  b_Credential :: string
  b_CredentialHeader :: string
  b_CredentialScheme :: string
  b_ProtocolVersion :: string

definition Stateless :: "Backend \<Rightarrow> bool" where
  "Stateless b \<longleftrightarrow> b_ProtocolVersion b = ProtocolVersionStateless"

record Tenant =
  t_ID :: string
  t_Groups :: "string list"
  t_Headers :: "(string, string) gomap"
  t_Credential :: string
  t_Backend :: Backend

definition EffectiveCredential :: "Tenant \<Rightarrow> string" where
  "EffectiveCredential t = (if t_Credential t \<noteq> [] then t_Credential t else b_Credential (t_Backend t))"

record Registry =
  byTenant :: "(string, Tenant) gomap"
  reg_backends :: "Backend list"

datatype reg_error =
    InvalidURL string string
  | URLNotAbsolute string string
  | DuplicateTenant string
  | NoTenantsConfigured
  | ErrUnknownTenant string

section \<open>Construction\<close>

definition makeBackend :: "BackendConfig \<Rightarrow> url \<Rightarrow> Backend" where
  "makeBackend bc u =
     \<lparr>b_Name = bc_Name bc, b_URL = u, b_Headers = bc_Headers bc, b_Credential = bc_Credential bc,
      b_CredentialHeader = (if bc_CredentialHeader bc = [] then ''Authorization'' else bc_CredentialHeader bc),
      b_CredentialScheme = (case bc_CredentialScheme bc of None \<Rightarrow> ''Bearer'' | Some s \<Rightarrow> s),
      b_ProtocolVersion =
        (if bc_ProtocolVersion bc = [] then ProtocolVersionStateful else bc_ProtocolVersion bc)\<rparr>"

definition makeTenant :: "Backend \<Rightarrow> TenantConfig \<Rightarrow> Tenant" where
  "makeTenant b tc =
     \<lparr>t_ID = tc_ID tc, t_Groups = tc_Groups tc, t_Headers = tc_Headers tc,
      t_Credential = tc_Credential tc, t_Backend = b\<rparr>"

fun addTenants ::
    "Backend \<Rightarrow> TenantConfig list \<Rightarrow> (string, Tenant) gomap \<Rightarrow> reg_error + (string, Tenant) gomap" where
  "addTenants b [] m = Inr m"
| "addTenants b (tc # tcs) m =
     (case map_of m (tc_ID tc) of
        Some _ \<Rightarrow> Inl (DuplicateTenant (tc_ID tc))
      | None \<Rightarrow> addTenants b tcs (gomap_set (tc_ID tc) (makeTenant b tc) m))"

fun addBackends :: "BackendConfig list \<Rightarrow> Registry \<Rightarrow> reg_error + Registry" where
  "addBackends [] r = Inr r"
| "addBackends (bc # bcs) r =
     (case url_parse (bc_URL bc) of
        Inl e \<Rightarrow> Inl (InvalidURL (bc_Name bc) e)
      | Inr u \<Rightarrow>
          (if url_scheme u = [] \<or> url_host u = [] then Inl (URLNotAbsolute (bc_Name bc) (bc_URL bc))
           else (let b = makeBackend bc u in
                 case addTenants b (bc_Tenants bc) (byTenant r) of
                   Inl e \<Rightarrow> Inl e
                 | Inr m \<Rightarrow> addBackends bcs (r\<lparr>byTenant := m, reg_backends := reg_backends r @ [b]\<rparr>))))"

definition New :: "BackendConfig list \<Rightarrow> reg_error + Registry" where
  "New bcs =
     (case addBackends bcs \<lparr>byTenant = [], reg_backends = []\<rparr> of
        Inl e \<Rightarrow> Inl e
      | Inr r \<Rightarrow> if byTenant r = [] then Inl NoTenantsConfigured else Inr r)"

section \<open>Queries\<close>

definition AllStateless :: "Registry \<Rightarrow> bool" where
  "AllStateless r \<longleftrightarrow> list_all Stateless (reg_backends r) \<and> reg_backends r \<noteq> []"

definition Tenants :: "Registry \<Rightarrow> Tenant list" where
  "Tenants r = map snd (byTenant r)"

definition ResolveTenant :: "Registry \<Rightarrow> string \<Rightarrow> reg_error + Tenant" where
  "ResolveTenant r i = (case map_of (byTenant r) i of None \<Rightarrow> Inl (ErrUnknownTenant i) | Some t \<Rightarrow> Inr t)"

definition IsAuthorized :: "Tenant \<Rightarrow> string list \<Rightarrow> bool" where
  "IsAuthorized t groups = list_ex (\<lambda>g. g \<in> set groups) (t_Groups t)"

text \<open>
  The loop over the map with its inner loop over the tenant's groups, which stops at the first
  group the caller has, and the sort by id at the end.
\<close>

fun collectAuthorized :: "string list \<Rightarrow> (string, Tenant) gomap \<Rightarrow> Tenant list" where
  "collectAuthorized groups [] = []"
| "collectAuthorized groups ((_, t) # m) =
     (if list_ex (\<lambda>g. g \<in> set groups) (t_Groups t) then t # collectAuthorized groups m
      else collectAuthorized groups m)"

definition AuthorizedTenants :: "Registry \<Rightarrow> string list \<Rightarrow> Tenant list" where
  "AuthorizedTenants r groups = sort_key t_ID (collectAuthorized groups (byTenant r))"

section \<open>The invariant of the index\<close>

definition index_wf :: "(string, Tenant) gomap \<Rightarrow> Backend list \<Rightarrow> bool" where
  "index_wf m bs \<longleftrightarrow> gomap_ok m \<and> (\<forall>(k, t) \<in> set m. t_ID t = k \<and> t_Backend t \<in> set bs)"

definition reg_wf :: "Registry \<Rightarrow> bool" where
  "reg_wf r \<longleftrightarrow> index_wf (byTenant r) (reg_backends r)"

lemma addTenants_ok:
  "addTenants b tcs m = Inr m' \<longleftrightarrow>
     distinct (map tc_ID tcs) \<and> set (map tc_ID tcs) \<inter> dom (map_of m) = {}
     \<and> m' = m @ map (\<lambda>tc. (tc_ID tc, makeTenant b tc)) tcs"
proof (induction tcs arbitrary: m)
  case (Cons tc tcs)
  show ?case
  proof (cases "map_of m (tc_ID tc)")
    case None
    then have "tc_ID tc \<notin> fst ` set m" by (simp add: map_of_eq_None_iff)
    then have "gomap_set (tc_ID tc) (makeTenant b tc) m = m @ [(tc_ID tc, makeTenant b tc)]"
      by (induction m) auto
    with None \<open>tc_ID tc \<notin> fst ` set m\<close> Cons.IH [of "m @ [(tc_ID tc, makeTenant b tc)]"] show ?thesis
      by (simp add: dom_map_of_conv_image_fst Int_insert_right)
  next
    case (Some t)
    then show ?thesis by auto
  qed
qed auto

definition absolute_url :: "BackendConfig \<Rightarrow> bool" where
  "absolute_url bc = (case url_parse (bc_URL bc) of Inl _ \<Rightarrow> False | Inr u \<Rightarrow> url_scheme u \<noteq> [] \<and> url_host u \<noteq> [])"

definition backend_of :: "BackendConfig \<Rightarrow> Backend" where
  "backend_of bc = makeBackend bc (case url_parse (bc_URL bc) of Inl _ \<Rightarrow> empty_url | Inr u \<Rightarrow> u)"

definition index_of :: "BackendConfig \<Rightarrow> (string, Tenant) gomap" where
  "index_of bc = map (\<lambda>tc. (tc_ID tc, makeTenant (backend_of bc) tc)) (bc_Tenants bc)"

lemma fst_index_of [simp]: "map fst (index_of bc) = map tc_ID (bc_Tenants bc)"
  by (simp add: index_of_def)

lemma addBackends_ok:
  "addBackends bcs r = Inr r' \<longleftrightarrow>
     (\<forall>bc \<in> set bcs. absolute_url bc) \<and> distinct (tenant_ids bcs)
     \<and> set (tenant_ids bcs) \<inter> dom (map_of (byTenant r)) = {}
     \<and> r' = r\<lparr>byTenant := byTenant r @ concat (map index_of bcs),
              reg_backends := reg_backends r @ map backend_of bcs\<rparr>"
proof (induction bcs arbitrary: r)
  case Nil
  then show ?case by (auto simp: tenant_ids_def)
next
  case (Cons bc bcs)
  have ids: "tenant_ids (bc # bcs) = map tc_ID (bc_Tenants bc) @ tenant_ids bcs"
    by (simp add: tenant_ids_def)
  show ?case
  proof (cases "absolute_url bc")
    case False
    then show ?thesis by (auto simp: absolute_url_def split: sum.splits)
  next
    case True
    then obtain u where u: "url_parse (bc_URL bc) = Inr u" "url_scheme u \<noteq> []" "url_host u \<noteq> []"
      by (auto simp: absolute_url_def split: sum.splits)
    then have b: "makeBackend bc u = backend_of bc" by (simp add: backend_of_def)
    show ?thesis
    proof (cases "addTenants (backend_of bc) (bc_Tenants bc) (byTenant r)")
      case (Inl e)
      then have "\<not> (distinct (map tc_ID (bc_Tenants bc)) \<and> set (map tc_ID (bc_Tenants bc)) \<inter> dom (map_of (byTenant r)) = {})"
        using addTenants_ok [of "backend_of bc" "bc_Tenants bc" "byTenant r"] by (metis Inl_Inr_False)
      then have "\<not> (distinct (tenant_ids (bc # bcs)) \<and> set (tenant_ids (bc # bcs)) \<inter> dom (map_of (byTenant r)) = {})"
        unfolding ids distinct_append set_append by blast
      with Inl u b show ?thesis by auto
    next
      case (Inr m)
      have m: "distinct (map tc_ID (bc_Tenants bc))"
        "set (map tc_ID (bc_Tenants bc)) \<inter> dom (map_of (byTenant r)) = {}"
        "m = byTenant r @ index_of bc"
        using addTenants_ok [THEN iffD1, OF Inr] by (simp_all add: index_of_def)
      have d: "dom (map_of m) = dom (map_of (byTenant r)) \<union> set (map tc_ID (bc_Tenants bc))"
        unfolding m(3) by (simp add: dom_map_of_conv_image_fst index_of_def image_image Un_commute)
      let ?r = "r\<lparr>byTenant := m, reg_backends := reg_backends r @ [backend_of bc]\<rparr>"
      have step: "addBackends (bc # bcs) r = addBackends bcs ?r"
        using u b Inr by (simp add: Let_def)
      have upd: "?r\<lparr>byTenant := byTenant ?r @ concat (map index_of bcs),
                   reg_backends := reg_backends ?r @ map backend_of bcs\<rparr>
          = r\<lparr>byTenant := byTenant r @ concat (map index_of (bc # bcs)),
              reg_backends := reg_backends r @ map backend_of (bc # bcs)\<rparr>"
        using m(3) by simp
      have dm: "dom (map_of (byTenant ?r)) = dom (map_of (byTenant r)) \<union> set (map tc_ID (bc_Tenants bc))"
        by (simp add: d)
      show ?thesis
        unfolding step Cons.IH [of ?r] upd dm ids list.set ball_simps distinct_append set_append disjoint_split
        using m(1,2) True by argo
    qed
  qed
qed

lemma index_all_fst: "map fst (concat (map index_of bcs)) = tenant_ids bcs"
  by (induction bcs) (auto simp: tenant_ids_def)

lemma New_ok:
  "New bcs = Inr r \<longleftrightarrow>
     (\<forall>bc \<in> set bcs. absolute_url bc) \<and> distinct (tenant_ids bcs) \<and> tenant_ids bcs \<noteq> []
     \<and> r = \<lparr>byTenant = concat (map index_of bcs), reg_backends = map backend_of bcs\<rparr>"
proof -
  have "concat (map index_of bcs) = [] \<longleftrightarrow> tenant_ids bcs = []"
    using index_all_fst [of bcs] by (metis map_is_Nil_conv)
  then show ?thesis
    using addBackends_ok [of bcs "\<lparr>byTenant = [], reg_backends = []\<rparr>"]
    by (auto simp: New_def split: sum.splits)
qed

text \<open>C30. Building the registry succeeds exactly when every backend URL is absolute, tenant ids are
  globally unique and there is at least one tenant; the result holds exactly the configured
  backends, in order, and maps exactly the configured tenant ids to tenants that carry the settings
  of their own backend.\<close>

theorem New_ok_iff:
  "New bcs = Inr r \<longleftrightarrow>
     list_all absolute_url bcs \<and> distinct (tenant_ids bcs) \<and> tenant_ids bcs \<noteq> []
     \<and> r = \<lparr>byTenant = concat (map index_of bcs), reg_backends = map backend_of bcs\<rparr>"
  unfolding list_all_iff by (rule New_ok)

lemma New_wf [go_intros]:
  assumes "New bcs = Inr r"
  shows "reg_wf r"
proof -
  from assms have r: "r = \<lparr>byTenant = concat (map index_of bcs), reg_backends = map backend_of bcs\<rparr>"
    and "distinct (tenant_ids bcs)" by (simp_all add: New_ok)
  then show ?thesis
    by (auto simp: reg_wf_def index_wf_def index_all_fst index_of_def makeTenant_def)
qed

section \<open>Lookup and authorization\<close>

lemma ResolveTenant_Inr: "ResolveTenant r i = Inr t \<longleftrightarrow> map_of (byTenant r) i = Some t"
  by (auto simp: ResolveTenant_def split: option.splits)

lemma Resolve_member:
  assumes "reg_wf r" and "ResolveTenant r i = Inr t"
  shows "t_ID t = i" and "t \<in> set (Tenants r)" and "t_Backend t \<in> set (reg_backends r)"
proof -
  from assms(2) have "(i, t) \<in> set (byTenant r)" by (simp add: ResolveTenant_Inr map_of_SomeD)
  with assms(1) show "t_ID t = i" "t \<in> set (Tenants r)" "t_Backend t \<in> set (reg_backends r)"
    by (auto simp: reg_wf_def index_wf_def Tenants_def intro: rev_image_eqI)
qed

lemma Tenants_ids: "reg_wf r \<Longrightarrow> map t_ID (Tenants r) = map fst (byTenant r)"
  by (auto simp: reg_wf_def index_wf_def Tenants_def)

lemma distinct_Tenants_ids: "reg_wf r \<Longrightarrow> distinct (map t_ID (Tenants r))"
  by (simp add: Tenants_ids) (simp add: reg_wf_def index_wf_def)

lemma Tenants_backend: "reg_wf r \<Longrightarrow> t \<in> set (Tenants r) \<Longrightarrow> t_Backend t \<in> set (reg_backends r)"
  by (auto simp: reg_wf_def index_wf_def Tenants_def)

lemma collectAuthorized_filter: "collectAuthorized groups m = filter (\<lambda>t. IsAuthorized t groups) (map snd m)"
  by (induction m rule: collectAuthorized.induct [of _ groups]) (auto simp: IsAuthorized_def)

lemma AuthorizedTenants_filter:
  "AuthorizedTenants r groups = sort_key t_ID (filter (\<lambda>t. IsAuthorized t groups) (Tenants r))"
  by (simp add: AuthorizedTenants_def collectAuthorized_filter Tenants_def)

lemma set_AuthorizedTenants:
  "set (AuthorizedTenants r groups) = {t \<in> set (Tenants r). IsAuthorized t groups}"
  by (simp add: AuthorizedTenants_filter)

lemma sorted_AuthorizedTenants: "sorted (map t_ID (AuthorizedTenants r groups))"
  by (simp add: AuthorizedTenants_def)

lemma distinct_filter_key: "distinct (map f xs) \<Longrightarrow> distinct (map f (filter P xs))"
  by (induction xs) auto

lemma distinct_sort_key_map: "distinct (map f (sort_key g xs)) = distinct (map f xs)"
  by (metis mset_eq_imp_distinct_iff mset_map mset_sort)

lemma distinct_AuthorizedTenants: "reg_wf r \<Longrightarrow> distinct (map t_ID (AuthorizedTenants r groups))"
  by (simp add: AuthorizedTenants_filter distinct_sort_key_map distinct_filter_key distinct_Tenants_ids)

text \<open>
  The contract of the registry towards the request handler. Whatever the tenants are, a caller
  who goes through these operations never ends up with a tenant its groups do not authorize.
\<close>

locale tenant_directory =
  fixes wf :: "'r \<Rightarrow> bool"
    and resolve :: "'r \<Rightarrow> string \<Rightarrow> 'e + 't"
    and authorized :: "'r \<Rightarrow> 'g \<Rightarrow> 't list"
    and allowed :: "'t \<Rightarrow> 'g \<Rightarrow> bool"
    and tenants :: "'r \<Rightarrow> 't list"
    and ident :: "'t \<Rightarrow> string"
  assumes resolve_ident: "wf r \<Longrightarrow> resolve r i = Inr t \<Longrightarrow> ident t = i"
    and resolve_tenant: "wf r \<Longrightarrow> resolve r i = Inr t \<Longrightarrow> t \<in> set (tenants r)"
    and resolve_known: "wf r \<Longrightarrow> t \<in> set (tenants r) \<Longrightarrow> resolve r (ident t) = Inr t"
    and authorized_set: "wf r \<Longrightarrow> set (authorized r g) = {t \<in> set (tenants r). allowed t g}"
    and authorized_distinct: "wf r \<Longrightarrow> distinct (map ident (authorized r g))"
begin

lemma explicit_choice_authorized:
  "wf r \<Longrightarrow> resolve r i = Inr t \<Longrightarrow> allowed t g \<Longrightarrow> t \<in> set (authorized r g)"
  by (simp add: authorized_set resolve_tenant)

lemma authorized_iff_resolve:
  assumes "wf r"
  shows "t \<in> set (authorized r g) \<longleftrightarrow> resolve r (ident t) = Inr t \<and> allowed t g"
  using assms authorized_set resolve_known resolve_tenant by blast

lemma same_ident_same_tenant:
  "wf r \<Longrightarrow> s \<in> set (tenants r) \<Longrightarrow> t \<in> set (tenants r) \<Longrightarrow> ident s = ident t \<Longrightarrow> s = t"
  using resolve_known by (metis sum.inject(2))

end

lemma Resolve_known: "reg_wf r \<Longrightarrow> t \<in> set (Tenants r) \<Longrightarrow> ResolveTenant r (t_ID t) = Inr t"
  by (auto simp: ResolveTenant_Inr Tenants_def reg_wf_def index_wf_def)

interpretation directory: tenant_directory reg_wf ResolveTenant AuthorizedTenants IsAuthorized Tenants t_ID
  by unfold_locales
    (simp_all add: Resolve_member Resolve_known set_AuthorizedTenants distinct_AuthorizedTenants)

text \<open>C29. The tenants a caller may select are exactly the registered tenants that list one of the
  caller's groups; they come sorted by id, each once; and the single check used for an explicit
  choice agrees with the list.\<close>

theorem AuthorizedTenants_correct:
  assumes "New bcs = Inr r"
  shows "(t \<in> set (AuthorizedTenants r groups) \<longleftrightarrow>
            t \<in> set (Tenants r) \<and> set (t_Groups t) \<inter> set groups \<noteq> {})
     \<and> sorted (map t_ID (AuthorizedTenants r groups)) \<and> distinct (map t_ID (AuthorizedTenants r groups))
     \<and> (t \<in> set (AuthorizedTenants r groups) \<longleftrightarrow> ResolveTenant r (t_ID t) = Inr t \<and> IsAuthorized t groups)"
proof -
  have wf: "reg_wf r" using assms by (rule New_wf)
  then show ?thesis
    using directory.authorized_iff_resolve [OF wf, of t groups]
    by (auto simp: set_AuthorizedTenants sorted_AuthorizedTenants distinct_AuthorizedTenants
        IsAuthorized_def list_ex_iff)
qed

text \<open>The result does not depend on the order in which the runtime ranges over the map: any
  two orders of the same index give the same list.\<close>

lemma AuthorizedTenants_order_independent:
  assumes "reg_wf r" and "mset (byTenant r') = mset (byTenant r)"
  shows "AuthorizedTenants r' groups = AuthorizedTenants r groups"
proof -
  have "mset (Tenants r') = mset (Tenants r)"
    using assms(2) by (simp add: Tenants_def)
  moreover from this have "set (Tenants r') = set (Tenants r)" by (rule mset_eq_setD)
  moreover have "inj_on t_ID (set (Tenants r))"
    using assms(1) distinct_Tenants_ids distinct_map_inj_on by blast
  ultimately show ?thesis
    unfolding AuthorizedTenants_filter
    by (intro sort_key_perm_unique) (auto simp: inj_on_def)
qed

text \<open>The example configuration as a registry.\<close>

definition example_registry :: "reg_error + Registry" where
  "example_registry = New (Backends example_config)"

lemma example_registry_ok:
  "case example_registry of
     Inr r \<Rightarrow> map t_ID (AuthorizedTenants r [''g2'']) = [''b''] \<and> map t_ID (Tenants r) = [''a'', ''b'']
   | Inl _ \<Rightarrow> False"
  by code_simp

theorem AuthorizedTenants_correct_witness:
  "\<exists>r. New (Backends example_config) = Inr r
     \<and> sorted (map t_ID (AuthorizedTenants r [''g2'', ''g1'']))
     \<and> (\<forall>t. t \<in> set (AuthorizedTenants r [''g2'', ''g1'']) \<longleftrightarrow>
            t \<in> set (Tenants r) \<and> set (t_Groups t) \<inter> set [''g2'', ''g1''] \<noteq> {})"
proof -
  obtain r where "New (Backends example_config) = Inr r"
    using example_registry_ok unfolding example_registry_def by (auto split: sum.splits)
  with AuthorizedTenants_correct [OF this] show ?thesis by blast
qed

lemma AuthorizedTenants_order_independent_example:
  "\<exists>r. New (Backends example_config) = Inr r \<and> reg_wf r
     \<and> AuthorizedTenants (r\<lparr>byTenant := rev (byTenant r)\<rparr>) [''g1'', ''g2''] = AuthorizedTenants r [''g1'', ''g2'']"
proof -
  obtain r where r: "New (Backends example_config) = Inr r"
    using example_registry_ok unfolding example_registry_def by (auto split: sum.splits)
  then have "reg_wf r" by (rule New_wf)
  with r AuthorizedTenants_order_independent [of r "r\<lparr>byTenant := rev (byTenant r)\<rparr>"] show ?thesis by auto
qed

section \<open>Credentials and statelessness\<close>

lemma AllStateless_Tenants:
  assumes "reg_wf r" and "AllStateless r" and "t \<in> set (Tenants r)"
  shows "Stateless (t_Backend t)"
  using assms Tenants_backend by (auto simp: AllStateless_def list_all_iff)

end
