(* ===== verification/Session.thy ===== *)
theory Session
  imports Go_Http
begin

text \<open>
  The session store (\<^verbatim>\<open>internal/session/session.go\<close>): the client-facing sessions, each with the
  backend sessions opened for it, dropped when idle longer than a time to live. Every operation
  holds the store's lock from beginning to end, so each is one step on the store.
\<close>

record Session =
  s_ID :: string
  created :: int
  lastSeen :: int
  backendSID :: "(string, string) gomap"

definition BackendSID :: "Session \<Rightarrow> string \<Rightarrow> string option" where
  "BackendSID s backend = map_of (backendSID s) backend"

record Store =
  st_m :: "(string, Session) gomap"
  st_ttl :: int

definition NewStore :: "int \<Rightarrow> Store" where
  "NewStore idleTTL = \<lparr>st_m = [], st_ttl = idleTTL\<rparr>"

definition newID :: "env \<Rightarrow> io \<Rightarrow> string \<times> io" where
  "newID e w = (let (b, w1) = rand_Read e w in (hex_EncodeToString b, w1))"

definition reapLocked :: "env \<Rightarrow> Store \<Rightarrow> io \<Rightarrow> Store \<times> io" where
  "reapLocked e st w =
     (if st_ttl st \<le> 0 then (st, w)
      else (let (now, w1) = time_Now e w; cutoff = now - st_ttl st
            in (st\<lparr>st_m := filter (\<lambda>(_, s). \<not> lastSeen s < cutoff) (st_m st)\<rparr>, w1)))"

definition Mint :: "env \<Rightarrow> Store \<Rightarrow> io \<Rightarrow> Session \<times> Store \<times> io" where
  "Mint e st w =
     (let (st1, w1) = reapLocked e st w;
          (now, w2) = time_Now e w1;
          (i, w3) = newID e w2;
          sess = \<lparr>s_ID = i, created = now, lastSeen = now, backendSID = []\<rparr>
      in (sess, st1\<lparr>st_m := gomap_set i sess (st_m st1)\<rparr>, w3))"

definition Get :: "env \<Rightarrow> string \<Rightarrow> Store \<Rightarrow> io \<Rightarrow> Session option \<times> Store \<times> io" where
  "Get e i st w =
     (let (st1, w1) = reapLocked e st w in
      case map_of (st_m st1) i of
        None \<Rightarrow> (None, st1, w1)
      | Some s \<Rightarrow>
          (let (now, w2) = time_Now e w1; s' = s\<lparr>lastSeen := now\<rparr>
           in (Some s', st1\<lparr>st_m := gomap_set i s' (st_m st1)\<rparr>, w2)))"

definition SetBackendSID :: "env \<Rightarrow> string \<Rightarrow> string \<Rightarrow> string \<Rightarrow> Store \<Rightarrow> io \<Rightarrow> Store \<times> io" where
  "SetBackendSID e proxySID backend sid st w =
     (case map_of (st_m st) proxySID of
        None \<Rightarrow> (st, w)
      | Some s \<Rightarrow>
          (let (now, w1) = time_Now e w;
               s' = s\<lparr>backendSID := gomap_set backend sid (backendSID s), lastSeen := now\<rparr>
           in (st\<lparr>st_m := gomap_set proxySID s' (st_m st)\<rparr>, w1)))"

definition Delete :: "string \<Rightarrow> Store \<Rightarrow> Session option \<times> Store" where
  "Delete i st =
     (case map_of (st_m st) i of
        None \<Rightarrow> (None, st)
      | Some s \<Rightarrow> (Some s, st\<lparr>st_m := gomap_delete i (st_m st)\<rparr>))"

definition Len :: "env \<Rightarrow> Store \<Rightarrow> io \<Rightarrow> nat \<times> Store \<times> io" where
  "Len e st w = (let (st1, w1) = reapLocked e st w in (length (st_m st1), st1, w1))"

section \<open>Invariant\<close>

definition store_wf :: "Store \<Rightarrow> bool" where
  "store_wf st \<longleftrightarrow> gomap_ok (st_m st) \<and> (\<forall>i s. map_of (st_m st) i = Some s \<longrightarrow> s_ID s = i \<and> gomap_ok (backendSID s))"

lemma store_wf_code [code]:
  "store_wf st \<longleftrightarrow> gomap_ok (st_m st) \<and> list_all (\<lambda>(i, s). s_ID s = i \<and> gomap_ok (backendSID s)) (st_m st)"
proof (cases "gomap_ok (st_m st)")
  case True
  then have "map_of (st_m st) i = Some s \<longleftrightarrow> (i, s) \<in> set (st_m st)" for i s
    by (rule map_of_eq_Some_iff)
  then show ?thesis unfolding store_wf_def list_all_iff using True by blast
qed (simp add: store_wf_def)

lemma store_wf_New: "store_wf (NewStore t)"
  by (simp add: store_wf_def NewStore_def)

lemma map_of_reap:
  assumes "gomap_ok (st_m st)"
  shows "map_of (st_m (fst (reapLocked e st w))) i =
    (case map_of (st_m st) i of
       None \<Rightarrow> None
     | Some s \<Rightarrow> if 0 < st_ttl st \<and> lastSeen s < clock e (ticks w) - st_ttl st then None else Some s)"
  using assms
  by (auto simp: reapLocked_def time_Now_def map_of_filter_distinct split: option.split)

lemma reap_ttl [simp]: "st_ttl (fst (reapLocked e st w)) = st_ttl st"
  by (simp add: reapLocked_def time_Now_def)

lemma reap_sent [simp]: "sent (snd (reapLocked e st w)) = sent w"
  by (simp add: reapLocked_def time_Now_def)

lemma store_wf_reap: "store_wf st \<Longrightarrow> store_wf (fst (reapLocked e st w))"
  by (auto simp: store_wf_def map_of_reap split: option.splits if_splits)
    (simp add: reapLocked_def time_Now_def)

lemma store_wf_update:
  "store_wf st \<Longrightarrow> s_ID s = i \<Longrightarrow> gomap_ok (backendSID s) \<Longrightarrow> store_wf (st\<lparr>st_m := gomap_set i s (st_m st)\<rparr>)"
  by (auto simp: store_wf_def update_conv' split: if_splits)

text \<open>The operations as equations over the reaped store.\<close>

definition fresh_session :: "env \<Rightarrow> io \<Rightarrow> Session" where
  "fresh_session e w =
     \<lparr>s_ID = hex_EncodeToString (random e (draws w)), created = clock e (ticks w),
      lastSeen = clock e (ticks w), backendSID = []\<rparr>"

lemma Mint_eq:
  "Mint e st w =
     (let st1 = fst (reapLocked e st w); w1 = snd (reapLocked e st w); s = fresh_session e w1
      in (s, st1\<lparr>st_m := gomap_set (s_ID s) s (st_m st1)\<rparr>,
          w1\<lparr>ticks := Suc (ticks w1), draws := Suc (draws w1)\<rparr>))"
  by (simp add: Mint_def newID_def time_Now_def rand_Read_def fresh_session_def split: prod.split)

lemma Get_eq:
  "Get e i st w =
     (let st1 = fst (reapLocked e st w); w1 = snd (reapLocked e st w) in
      case map_of (st_m st1) i of
        None \<Rightarrow> (None, st1, w1)
      | Some s \<Rightarrow>
          (let s' = s\<lparr>lastSeen := clock e (ticks w1)\<rparr>
           in (Some s', st1\<lparr>st_m := gomap_set i s' (st_m st1)\<rparr>, w1\<lparr>ticks := Suc (ticks w1)\<rparr>)))"
  by (simp add: Get_def time_Now_def split: prod.split option.split)

lemma SetBackendSID_eq:
  "SetBackendSID e i b sid st w =
     (case map_of (st_m st) i of
        None \<Rightarrow> (st, w)
      | Some s \<Rightarrow>
          (st\<lparr>st_m := gomap_set i (s\<lparr>backendSID := gomap_set b sid (backendSID s),
                                     lastSeen := clock e (ticks w)\<rparr>) (st_m st)\<rparr>,
           w\<lparr>ticks := Suc (ticks w)\<rparr>))"
  by (simp add: SetBackendSID_def time_Now_def split: option.split)

lemma store_sent [simp]:
  "sent (snd (snd (Mint e st w))) = sent w"
  "sent (snd (snd (Get e i st w))) = sent w"
  "sent (snd (SetBackendSID e i b sid st w)) = sent w"
  by (simp_all add: Mint_eq Get_eq SetBackendSID_eq Let_def split: option.split)

lemma store_ttl [simp]:
  "st_ttl (fst (snd (Mint e st w))) = st_ttl st"
  "st_ttl (fst (snd (Get e i st w))) = st_ttl st"
  "st_ttl (fst (SetBackendSID e i b sid st w)) = st_ttl st"
  "st_ttl (snd (Delete i st)) = st_ttl st"
  by (simp_all add: Mint_eq Get_eq SetBackendSID_eq Delete_def Let_def split: option.split)

lemma store_wf_ops [go_intros]:
  assumes "store_wf st"
  shows "store_wf (fst (snd (Mint e st w)))" and "store_wf (fst (snd (Get e i st w)))"
    and "store_wf (fst (SetBackendSID e i b sid st w))" and "store_wf (snd (Delete i st))"
    and "store_wf (fst (snd (Len e st w)))"
  using store_wf_reap [OF assms, of e w] assms
  by (auto simp: Mint_eq Get_eq SetBackendSID_eq Delete_def Len_def Let_def fresh_session_def
      split: option.split prod.split intro!: store_wf_update)
    (auto simp: store_wf_def delete_conv' split: if_splits)

text \<open>The histories of a store: what a sequence of operations can make of an empty one.\<close>

inductive store_reach :: "env \<Rightarrow> Store \<Rightarrow> bool" for e where
  new: "store_reach e (NewStore t)"
| mint: "store_reach e st \<Longrightarrow> store_reach e (fst (snd (Mint e st w)))"
| get: "store_reach e st \<Longrightarrow> store_reach e (fst (snd (Get e i st w)))"
| set: "store_reach e st \<Longrightarrow> store_reach e (fst (SetBackendSID e i b sid st w))"
| delete: "store_reach e st \<Longrightarrow> store_reach e (snd (Delete i st))"
| len: "store_reach e st \<Longrightarrow> store_reach e (fst (snd (Len e st w)))"

text \<open>In every store any sequence of operations can produce, ids are unique keys, each session
  is stored under its own id, and its table of backend sessions has one entry per tenant.\<close>

lemma store_reach_wf: "store_reach e st \<Longrightarrow> store_wf st"
  by (induction rule: store_reach.induct) (simp_all add: store_wf_New store_wf_ops)

lemma store_reach_wf_example: "store_wf (fst (snd (Mint quiet_env (NewStore 5) init_io)))"
  by (rule store_reach_wf [OF store_reach.mint [OF store_reach.new]])

text \<open>A store with one session that is fresh and one that has been idle for long.\<close>

definition example_store :: Store where
  "example_store = \<lparr>st_m = [(''a'', \<lparr>s_ID = ''a'', created = - 9, lastSeen = - 1, backendSID = [(''acme'', ''b1'')]\<rparr>),
     (''b'', \<lparr>s_ID = ''b'', created = - 9, lastSeen = - 9, backendSID = []\<rparr>)], st_ttl = 5\<rparr>"

lemma example_store_wf: "store_wf example_store"
  by code_simp

section \<open>The contract clients rely on\<close>

text \<open>
  What a client of the store needs to know about the backend sessions bound to a client session:
  \<open>bound st i t\<close> is the backend session id that session \<open>i\<close> holds for tenant \<open>t\<close>. Only recording one
  can bind, minting starts with nothing bound, and what a lookup or a deletion hands out is what was
  bound.
\<close>

locale session_bindings =
  fixes wf :: "'st \<Rightarrow> bool"
    and bound :: "'st \<Rightarrow> string \<Rightarrow> string \<Rightarrow> string option"
    and mint :: "'c \<Rightarrow> 'st \<Rightarrow> string \<times> 'st"
    and lookup :: "'c \<Rightarrow> string \<Rightarrow> 'st \<Rightarrow> (string \<Rightarrow> string option) option \<times> 'st"
    and bind :: "'c \<Rightarrow> string \<Rightarrow> string \<Rightarrow> string \<Rightarrow> 'st \<Rightarrow> 'st"
    and remove :: "string \<Rightarrow> 'st \<Rightarrow> (string \<Rightarrow> string option) option \<times> 'st"
  assumes mint_fresh: "wf st \<Longrightarrow> mint c st = (i, st') \<Longrightarrow> bound st' i t = None"
    and mint_other: "wf st \<Longrightarrow> mint c st = (i, st') \<Longrightarrow> j \<noteq> i \<Longrightarrow> bound st' j t \<in> {None, bound st j t}"
    and lookup_result: "wf st \<Longrightarrow> lookup c i st = (Some f, st') \<Longrightarrow> f = bound st i"
    and lookup_state: "wf st \<Longrightarrow> lookup c i st = (r, st') \<Longrightarrow> bound st' j t \<in> {None, bound st j t}"
    and bind_other: "wf st \<Longrightarrow> (j, u) \<noteq> (i, t) \<Longrightarrow> bound (bind c i t b st) j u = bound st j u"
    and bind_this: "wf st \<Longrightarrow> bound (bind c i t b st) i t \<in> {None, Some b}"
    and remove_result: "wf st \<Longrightarrow> remove i st = (Some f, st') \<Longrightarrow> f = bound st i"
    and remove_state: "wf st \<Longrightarrow> remove i st = (r, st') \<Longrightarrow> bound st' j t = (if j = i then None else bound st j t)"
begin

text \<open>Every bound pair of tenant and backend session satisfies \<open>P\<close>.\<close>

definition all_bound :: "(string \<Rightarrow> string \<Rightarrow> bool) \<Rightarrow> 'st \<Rightarrow> bool" where
  "all_bound P st \<longleftrightarrow> (\<forall>i t b. bound st i t = Some b \<longrightarrow> P t b)"

lemma all_boundI_shrink:
  assumes "all_bound P st" and "\<And>j t. bound st' j t \<in> {None, bound st j t}"
  shows "all_bound P st'"
  unfolding all_bound_def
proof (intro allI impI)
  fix i t b
  assume b: "bound st' i t = Some b"
  with assms(2) [of i t] have "bound st i t = Some b" by auto
  with assms(1) show "P t b" unfolding all_bound_def by blast
qed

lemma all_bound_mono: "all_bound P st \<Longrightarrow> (\<And>t b. P t b \<Longrightarrow> Q t b) \<Longrightarrow> all_bound Q st"
  unfolding all_bound_def by blast

lemma all_bound_mint: "wf st \<Longrightarrow> all_bound P st \<Longrightarrow> mint c st = (i, st') \<Longrightarrow> all_bound P st'"
  by (rule all_boundI_shrink, assumption) (metis insertCI mint_fresh mint_other)

lemma all_bound_lookup: "wf st \<Longrightarrow> all_bound P st \<Longrightarrow> lookup c i st = (r, st') \<Longrightarrow> all_bound P st'"
  by (rule all_boundI_shrink, assumption) (rule lookup_state)

lemma all_bound_remove: "wf st \<Longrightarrow> all_bound P st \<Longrightarrow> remove i st = (r, st') \<Longrightarrow> all_bound P st'"
  by (rule all_boundI_shrink, assumption) (simp add: remove_state)

lemma all_bound_bind:
  assumes "wf st" and "all_bound P st" and "P t b"
  shows "all_bound P (bind c i t b st)"
  unfolding all_bound_def
proof (intro allI impI)
  fix j u x
  assume x: "bound (bind c i t b st) j u = Some x"
  show "P u x"
  proof (cases "(j, u) = (i, t)")
    case True
    with x bind_this [OF assms(1), of c i t b] assms(3) show ?thesis by auto
  next
    case False
    from bind_other [OF assms(1) False, of c b] x have "bound st j u = Some x" by simp
    with assms(2) show ?thesis unfolding all_bound_def by blast
  qed
qed

lemma handed_out:
  assumes "wf st" and "all_bound P st" and "f t = Some b"
    and "lookup c i st = (Some f, st') \<or> remove i st = (Some f, st')"
  shows "P t b"
proof -
  have "f = bound st i" using assms(1,4) lookup_result remove_result by blast
  with assms(2,3) show ?thesis unfolding all_bound_def by auto
qed

end

definition bound_sid :: "Store \<Rightarrow> string \<Rightarrow> string \<Rightarrow> string option" where
  "bound_sid st i t = (case map_of (st_m st) i of None \<Rightarrow> None | Some s \<Rightarrow> BackendSID s t)"

lemma bound_sid_update:
  "bound_sid (st\<lparr>st_m := gomap_set i s (st_m st)\<rparr>) j t = (if j = i then BackendSID s t else bound_sid st j t)"
  by (simp add: bound_sid_def)

lemma bound_sid_reap: "store_wf st \<Longrightarrow> bound_sid (fst (reapLocked e st w)) j t \<in> {None, bound_sid st j t}"
  by (simp add: bound_sid_def map_of_reap store_wf_def split: option.split)

lemma bound_sid_Get:
  assumes "store_wf st"
  shows "bound_sid (fst (snd (Get e i st w))) j t \<in> {None, bound_sid st j t}"
proof -
  have "bound_sid (fst (snd (Get e i st w))) j t = bound_sid (fst (reapLocked e st w)) j t"
  proof (cases "map_of (st_m (fst (reapLocked e st w))) i")
    case None
    then show ?thesis by (simp add: Get_eq)
  next
    case (Some s)
    then show ?thesis by (auto simp: Get_eq Let_def bound_sid_update) (simp add: bound_sid_def BackendSID_def)
  qed
  with bound_sid_reap [OF assms, of e w j t] show ?thesis by simp
qed

lemma BackendSID_Get:
  assumes "store_wf st" and "fst (Get e i st w) = Some s"
  shows "BackendSID s = bound_sid st i"
proof -
  have "map_of (st_m (fst (reapLocked e st w))) i = map_of (st_m st) i"
    and "map_of (st_m st) i \<noteq> None"
    using assms map_of_reap [of st e w i]
    by (auto simp: Get_eq Let_def store_wf_def split: option.splits if_splits simp del: map_of_eq_Some_iff)
  with assms(2) show ?thesis
    by (auto simp: Get_eq Let_def bound_sid_def BackendSID_def fun_eq_iff split: option.splits)
qed

interpretation bindings: session_bindings store_wf bound_sid
  "\<lambda>(e, w) st. (s_ID (fst (Mint e st w)), fst (snd (Mint e st w)))"
  "\<lambda>(e, w) i st. (map_option BackendSID (fst (Get e i st w)), fst (snd (Get e i st w)))"
  "\<lambda>(e, w) i t b st. fst (SetBackendSID e i t b st w)"
  "\<lambda>i st. (map_option BackendSID (fst (Delete i st)), snd (Delete i st))"
proof (unfold_locales, goal_cases)
  case (1 st c i st' t)
  then show ?case by (auto simp: Mint_eq Let_def bound_sid_def fresh_session_def BackendSID_def split: prod.splits)
next
  case (2 st c i st' j t)
  obtain e w where c: "c = (e, w)" by (cases c)
  from 2 c have "bound_sid st' j t = bound_sid (fst (reapLocked e st w)) j t"
    by (auto simp: Mint_eq Let_def bound_sid_def)
  with bound_sid_reap [OF 2(1)] show ?case by simp
next
  case (3 st c i f st')
  then show ?case by (auto dest: BackendSID_Get split: prod.splits)
next
  case (4 st c i r st' j t)
  then show ?case using bound_sid_Get [OF 4(1), of "fst c" i "snd c" j t] by (cases c) auto
next
  case (5 st j u i t c b)
  then show ?case
    by (auto simp: SetBackendSID_eq bound_sid_def BackendSID_def update_conv' split: prod.splits option.splits)
next
  case (6 st c i t b)
  then show ?case
    by (auto simp: SetBackendSID_eq bound_sid_def BackendSID_def update_conv' split: prod.splits option.splits)
next
  case (7 st i f st')
  then show ?case by (auto simp: Delete_def bound_sid_def fun_eq_iff split: option.splits)
next
  case (8 st i r st' j t)
  then show ?case
    by (auto simp: Delete_def bound_sid_def delete_conv' split: option.splits simp del: map_of_eq_Some_iff)
qed

section \<open>Expiry\<close>

lemma map_of_st_Mint:
  "gomap_ok (st_m st) \<Longrightarrow> i \<noteq> s_ID (fst (Mint e st w)) \<Longrightarrow>
   map_of (st_m (fst (snd (Mint e st w)))) i = map_of (st_m (fst (reapLocked e st w))) i"
  by (simp add: Mint_eq Let_def update_conv')

text \<open>A lookup succeeds exactly when the session exists and has been idle for at most the
  time to live (always, when reaping is disabled); it then returns the stored session with only
  its last-seen time changed, and otherwise the session is gone from the store.\<close>

lemma Get_iff:
  assumes "store_wf st"
  shows "(case fst (Get e i st w) of
            Some s' \<Rightarrow> \<exists>s. map_of (st_m st) i = Some s \<and> (0 < st_ttl st \<longrightarrow> clock e (ticks w) - lastSeen s \<le> st_ttl st)
              \<and> s' = s\<lparr>lastSeen := lastSeen s'\<rparr>
          | None \<Rightarrow> map_of (st_m (fst (snd (Get e i st w)))) i = None
              \<and> (\<forall>s. map_of (st_m st) i = Some s \<longrightarrow> 0 < st_ttl st \<and> st_ttl st < clock e (ticks w) - lastSeen s))"
proof -
  have ok: "gomap_ok (st_m st)" using assms by (simp add: store_wf_def)
  show ?thesis
  proof (cases "map_of (st_m st) i")
    case None
    with map_of_reap [OF ok, of e w i] show ?thesis by (simp add: Get_eq Let_def)
  next
    case (Some s)
    with map_of_reap [OF ok, of e w i] show ?thesis
      by (cases "0 < st_ttl st \<and> lastSeen s < clock e (ticks w) - st_ttl st")
        (auto simp: Get_eq Let_def simp del: map_of_eq_Some_iff)
  qed
qed

lemma Get_iff_example:
  "map_option lastSeen (fst (Get quiet_env ''a'' example_store init_io)) = Some 1
   \<and> map_of (st_m (fst (snd (Get quiet_env ''b'' example_store init_io)))) ''b'' = None"
proof -
  have b: "fst (Get quiet_env ''b'' example_store init_io) = None" by code_simp
  have "map_option lastSeen (fst (Get quiet_env ''a'' example_store init_io)) = Some 1" by code_simp
  then show ?thesis
    using Get_iff [OF example_store_wf, of quiet_env "''b''" init_io] by (simp add: b)
qed

text \<open>Reaping is exact: after a lookup no other session that was idle longer than the time to
  live is left, every other session is unchanged, and no session appears.\<close>

lemma reap_exact:
  assumes "store_wf st" and "j \<noteq> i"
  shows "map_of (st_m (fst (snd (Get e i st w)))) j =
    (case map_of (st_m st) j of
       None \<Rightarrow> None
     | Some s \<Rightarrow> if 0 < st_ttl st \<and> st_ttl st < clock e (ticks w) - lastSeen s then None else Some s)"
  using assms map_of_reap [of st e w j]
  by (auto simp: Get_eq Let_def store_wf_def update_conv' split: option.split)

lemma reap_exact_example:
  "map_of (st_m (fst (snd (Get quiet_env ''a'' example_store init_io)))) ''b'' = None"
proof -
  have "map_of (st_m example_store) ''b'' = Some \<lparr>s_ID = ''b'', created = - 9, lastSeen = - 9, backendSID = []\<rparr>"
    by code_simp
  then show ?thesis
    using reap_exact [OF example_store_wf, of "''b''" "''a''" quiet_env init_io]
    by (simp add: example_store_def quiet_env_def init_io_def)
qed

text \<open>A minted session can be looked up for as long as the time to live lasts, and it starts
  without any backend session; its id is 32 hexadecimal digits when the random source delivers
  the 16 bytes asked for.\<close>

lemma Mint_then_Get:
  assumes "store_wf st" and "Mint e st w = (s, st', w')"
    and "0 < st_ttl st \<longrightarrow> clock e (ticks u) - lastSeen s \<le> st_ttl st"
  shows "\<exists>t. fst (Get e (s_ID s) st' u) = Some (s\<lparr>lastSeen := t\<rparr>) \<and> backendSID s = []
    \<and> (length (random e (draws w)) = 16 \<longrightarrow> length (s_ID s) = 32)"
proof -
  have s: "s = fresh_session e (snd (reapLocked e st w))"
    and st': "st' = fst (snd (Mint e st w))" and stored: "map_of (st_m st') (s_ID s) = Some s"
    using assms(2) by (auto simp: Mint_eq Let_def)
  have wf: "store_wf st'" using assms(1) st' by (simp add: store_wf_ops)
  have ttl: "st_ttl st' = st_ttl st" by (simp add: st')
  have "draws (snd (reapLocked e st w)) = draws w"
    by (simp add: reapLocked_def time_Now_def)
  then have "length (s_ID s) = 2 * length (random e (draws w))"
    by (simp add: s fresh_session_def)
  moreover have found: "map_of (st_m (fst (reapLocked e st' u))) (s_ID s) = Some s"
  proof -
    have "\<not> (0 < st_ttl st' \<and> lastSeen s < clock e (ticks u) - st_ttl st')"
      using assms(3) ttl by linarith
    moreover have "gomap_ok (st_m st')" using wf by (simp add: store_wf_def)
    ultimately show ?thesis
      unfolding map_of_reap [OF \<open>gomap_ok (st_m st')\<close>] stored by (simp only: option.case if_False)
  qed
  moreover have "backendSID s = []" by (simp add: s fresh_session_def)
  ultimately show ?thesis
    unfolding Get_eq Let_def found by (simp add: exI [of _ "clock e (ticks (snd (reapLocked e st' u)))"])
qed

lemma Mint_then_Get_example:
  "fst (Get quiet_env (s_ID (fst (Mint quiet_env example_store init_io)))
     (fst (snd (Mint quiet_env example_store init_io))) (snd (snd (Mint quiet_env example_store init_io)))) \<noteq> None"
proof -
  have "clock quiet_env (ticks (snd (snd (Mint quiet_env example_store init_io))))
      - lastSeen (fst (Mint quiet_env example_store init_io)) \<le> st_ttl example_store"
    by code_simp
  with Mint_then_Get [OF example_store_wf, of quiet_env init_io "fst (Mint quiet_env example_store init_io)"
      "fst (snd (Mint quiet_env example_store init_io))" "snd (snd (Mint quiet_env example_store init_io))"
      "snd (snd (Mint quiet_env example_store init_io))"]
  show ?thesis by auto
qed

text \<open>Deleting a session returns it with its table of backend sessions, removes it and nothing
  else, and a later lookup fails.\<close>

lemma Delete_correct:
  assumes "store_wf st"
  shows "fst (Delete i st) = map_of (st_m st) i \<and> map_of (st_m (snd (Delete i st))) = (map_of (st_m st))(i := None)
    \<and> fst (Get e i (snd (Delete i st)) w) = None"
proof -
  have wf: "store_wf (snd (Delete i st))" using assms by (simp add: store_wf_ops)
  have m: "map_of (st_m (snd (Delete i st))) = (map_of (st_m st))(i := None)"
    by (auto simp: Delete_def delete_conv' fun_eq_iff split: option.split)
  then have "map_of (st_m (fst (reapLocked e (snd (Delete i st)) w))) i = None"
    using wf by (simp add: map_of_reap store_wf_def)
  with m show ?thesis
    by (simp add: Get_eq Let_def) (simp add: Delete_def split: option.split)
qed

lemma Delete_correct_example:
  "map_option backendSID (fst (Delete ''a'' example_store)) = Some [(''acme'', ''b1'')]
   \<and> fst (Get quiet_env ''a'' (snd (Delete ''a'' example_store)) init_io) = None"
proof -
  have "map_option backendSID (map_of (st_m example_store) ''a'') = Some [(''acme'', ''b1'')]" by code_simp
  then show ?thesis using Delete_correct [OF example_store_wf, of "''a''" quiet_env init_io] by simp
qed

text \<open>Recording a backend session touches one entry of one session: the entry reads back, every
  other entry of that session and every other session stay as they were, and an unknown session
  leaves the whole store unchanged.\<close>

lemma SetBackendSID_frame:
  shows "(case map_of (st_m st) i of
            None \<Rightarrow> fst (SetBackendSID e i b sid st w) = st
          | Some s \<Rightarrow> (\<exists>s'. map_of (st_m (fst (SetBackendSID e i b sid st w))) i = Some s'
              \<and> BackendSID s' b = Some sid \<and> (b' = b \<or> BackendSID s' b' = BackendSID s b')
              \<and> s_ID s' = s_ID s \<and> created s' = created s))
     \<and> (j = i \<or> map_of (st_m (fst (SetBackendSID e i b sid st w))) j = map_of (st_m st) j)"
  by (auto simp: SetBackendSID_eq BackendSID_def update_conv' split: option.split)

end
