(* ===== verification/Leases.thy ===== *)
theory Leases
  imports Session
begin

text \<open>
  What the session store promises, without its map, its sweeps and its session objects. A session
  is a \<^emph>\<open>lease\<close>: the backend sessions recorded for it, and when it was last used. The
  specification never sweeps: a lease is judged when it is asked for. The store of
  \<^verbatim>\<open>internal/session/session.go\<close> instead drops expired sessions from its map whenever an operation
  that sweeps comes by. The two are related by a simulation, first for one operation and then for
  every history of operations; what can be read off a history (where a session that is handed out
  comes from, and what it holds) is proved on the specification and carried over.
\<close>

section \<open>Histories of the store\<close>

datatype store_op = OpMint | OpGet string | OpSet string string string | OpDelete string | OpLen

datatype store_out =
    Minted string
  | Found "(string \<Rightarrow> string option) option"
  | Recorded
  | Deleted "(string \<Rightarrow> string option) option"
  | Counted nat

text \<open>An event: the time an operation began, the last time it read, the operation and its result.\<close>

type_synonym event = "int \<times> int \<times> store_op \<times> store_out"

fun exec_op :: "env \<Rightarrow> store_op \<Rightarrow> Store \<Rightarrow> io \<Rightarrow> store_out \<times> Store \<times> io" where
  "exec_op e OpMint st w = (let (s, st', w') = Mint e st w in (Minted (s_ID s), st', w'))"
| "exec_op e (OpGet i) st w = (let (r, st', w') = Get e i st w in (Found (map_option BackendSID r), st', w'))"
| "exec_op e (OpSet i b sid) st w = (let (st', w') = SetBackendSID e i b sid st w in (Recorded, st', w'))"
| "exec_op e (OpDelete i) st w = (let (r, st') = Delete i st in (Deleted (map_option BackendSID r), st', w))"
| "exec_op e OpLen st w = (let (n, st', w') = Len e st w in (Counted n, st', w'))"

text \<open>Between two operations the rest of the program may read the clock any number of times.\<close>

fun exec_ops :: "env \<Rightarrow> (nat \<times> store_op) list \<Rightarrow> Store \<Rightarrow> io \<Rightarrow> event list \<times> Store \<times> io" where
  "exec_ops e [] st w = ([], st, w)"
| "exec_ops e ((gap, op) # ops) st w =
     (let w0 = w\<lparr>ticks := ticks w + gap\<rparr>;
          (out, st1, w1) = exec_op e op st w0;
          (tr, st2, w2) = exec_ops e ops st1 w1
      in ((clock e (ticks w0), clock e (max (ticks w0) (ticks w1 - 1)), op, out) # tr, st2, w2))"

section \<open>The specification\<close>

type_synonym lease = "(string \<Rightarrow> string option) \<times> int"
type_synonym leases = "string \<Rightarrow> lease option"

definition alive :: "int \<Rightarrow> int \<Rightarrow> int \<Rightarrow> bool" where
  "alive ttl now l \<longleftrightarrow> (0 < ttl \<longrightarrow> now - l \<le> ttl)"

definition expired :: "int \<Rightarrow> int \<Rightarrow> lease option \<Rightarrow> bool" where
  "expired ttl now x \<longleftrightarrow> (case x of None \<Rightarrow> True | Some (f, l) \<Rightarrow> \<not> alive ttl now l)"

text \<open>
  One operation between the times \<open>t\<close> and \<open>t'\<close>. A lookup finds a lease exactly when it has not
  expired. Recording and deleting do not sweep: an expired lease may still be there for them, in
  which case recording renews it and deleting hands it out once more, or it may be gone for good.
\<close>

inductive lease_step :: "int \<Rightarrow> int \<Rightarrow> int \<Rightarrow> leases \<Rightarrow> store_op \<Rightarrow> store_out \<Rightarrow> leases \<Rightarrow> bool" for ttl t t' where
  mint: "lease_step ttl t t' a OpMint (Minted i) (a(i \<mapsto> (Map.empty, t')))"
| get_live: "a i = Some (f, l) \<Longrightarrow> alive ttl t l \<Longrightarrow>
    lease_step ttl t t' a (OpGet i) (Found (Some f)) (a(i \<mapsto> (f, t')))"
| get_expired: "expired ttl t (a i) \<Longrightarrow> lease_step ttl t t' a (OpGet i) (Found None) (a(i := None))"
| set_known: "a i = Some (f, l) \<Longrightarrow>
    lease_step ttl t t' a (OpSet i b sid) Recorded (a(i \<mapsto> (f(b \<mapsto> sid), t')))"
| set_expired: "expired ttl t (a i) \<Longrightarrow> lease_step ttl t t' a (OpSet i b sid) Recorded (a(i := None))"
| del_known: "a i = Some (f, l) \<Longrightarrow>
    lease_step ttl t t' a (OpDelete i) (Deleted (Some f)) (a(i := None))"
| del_expired: "expired ttl t (a i) \<Longrightarrow> lease_step ttl t t' a (OpDelete i) (Deleted None) (a(i := None))"
| len: "lease_step ttl t t' a OpLen (Counted (card {i. \<not> expired ttl t (a i)})) a"

inductive_cases mint_stepE: "lease_step ttl t t' a OpMint r a'"
inductive_cases get_stepE: "lease_step ttl t t' a (OpGet i) r a'"
inductive_cases set_stepE: "lease_step ttl t t' a (OpSet i b sid) r a'"
inductive_cases delete_stepE: "lease_step ttl t t' a (OpDelete i) r a'"
inductive_cases len_stepE: "lease_step ttl t t' a OpLen r a'"

text \<open>The histories of the specification: time does not run backwards.\<close>

inductive lease_run :: "int \<Rightarrow> int \<Rightarrow> event list \<Rightarrow> leases \<Rightarrow> int \<Rightarrow> bool" for ttl t0 where
  start: "lease_run ttl t0 [] Map.empty t0"
| step: "lease_run ttl t0 tr a now \<Longrightarrow> now \<le> t \<Longrightarrow> t \<le> t' \<Longrightarrow> lease_step ttl t t' a op out a' \<Longrightarrow>
    lease_run ttl t0 (tr @ [(t, t', op, out)]) a' t'"

section \<open>The simulation\<close>

text \<open>A session in the map is the lease; a lease that is not in the map has expired.\<close>

definition represents :: "int \<Rightarrow> Store \<Rightarrow> leases \<Rightarrow> bool" where
  "represents now st a \<longleftrightarrow> store_wf st \<and> (\<forall>i. case map_of (st_m st) i of
       Some s \<Rightarrow> a i = Some (BackendSID s, lastSeen s)
     | None \<Rightarrow> expired (st_ttl st) now (a i))"

lemma represents_wf: "represents now st a \<Longrightarrow> store_wf st"
  by (simp add: represents_def)

lemma represents_Some: "represents now st a \<Longrightarrow> map_of (st_m st) i = Some s \<Longrightarrow> a i = Some (BackendSID s, lastSeen s)"
  unfolding represents_def by (auto dest!: spec [of _ i] simp del: map_of_eq_Some_iff)

lemma represents_None: "represents now st a \<Longrightarrow> map_of (st_m st) i = None \<Longrightarrow> expired (st_ttl st) now (a i)"
  unfolding represents_def by (auto dest!: spec [of _ i] simp del: map_of_eq_Some_iff map_of_eq_None_iff)

lemma representsI:
  assumes "store_wf st" and "\<And>i s. map_of (st_m st) i = Some s \<Longrightarrow> a i = Some (BackendSID s, lastSeen s)"
    and "\<And>i. map_of (st_m st) i = None \<Longrightarrow> expired (st_ttl st) now (a i)"
  shows "represents now st a"
  unfolding represents_def using assms by (auto split: option.split simp del: map_of_eq_Some_iff)

lemma expired_later: "expired ttl t x \<Longrightarrow> t \<le> t' \<Longrightarrow> expired ttl t' x"
  by (auto simp: expired_def alive_def split: option.splits)

lemma represents_later: "represents t st a \<Longrightarrow> t \<le> t' \<Longrightarrow> represents t' st a"
  by (rule representsI) (auto dest: represents_wf represents_Some represents_None intro: expired_later
      simp del: map_of_eq_Some_iff map_of_eq_None_iff)

lemma represents_New: "represents t (NewStore ttl) Map.empty"
  by (intro representsI store_wf_New) (simp_all add: NewStore_def expired_def)

text \<open>A sweep changes nothing that the specification can see, and leaves the live leases only.\<close>

lemma represents_reap:
  assumes "represents (clock e (ticks w)) st a"
  shows "represents (clock e (ticks w)) (fst (reapLocked e st w)) a"
proof (rule representsI)
  have wf: "store_wf st" by (rule represents_wf [OF assms])
  then show "store_wf (fst (reapLocked e st w))" by (rule store_wf_reap)
  have reap: "map_of (st_m (fst (reapLocked e st w))) i =
    (case map_of (st_m st) i of None \<Rightarrow> None
     | Some s \<Rightarrow> if 0 < st_ttl st \<and> lastSeen s < clock e (ticks w) - st_ttl st then None else Some s)" for i
    using wf by (intro map_of_reap) (simp add: store_wf_def)
  show "a i = Some (BackendSID s, lastSeen s)" if "map_of (st_m (fst (reapLocked e st w))) i = Some s" for i s
    using that represents_Some [OF assms, of i] unfolding reap
    by (simp split: option.splits if_splits del: map_of_eq_Some_iff)
  show "expired (st_ttl (fst (reapLocked e st w))) (clock e (ticks w)) (a i)"
    if "map_of (st_m (fst (reapLocked e st w))) i = None" for i
    using that represents_None [OF assms, of i] represents_Some [OF assms, of i] unfolding reap
    by (auto simp: expired_def [of _ _ "Some _"] alive_def split: option.splits if_splits simp del: map_of_eq_Some_iff)
qed

lemma reap_alive:
  assumes "store_wf st" and "map_of (st_m (fst (reapLocked e st w))) i = Some s"
  shows "alive (st_ttl st) (clock e (ticks w)) (lastSeen s)"
  using assms(2) map_of_reap [of st e w i] assms(1)
  by (auto simp: store_wf_def alive_def split: option.splits if_splits simp del: map_of_eq_Some_iff)

lemma reaped_iff_expired:
  assumes "represents (clock e (ticks w)) st a"
  shows "map_of (st_m (fst (reapLocked e st w))) i = None \<longleftrightarrow> expired (st_ttl st) (clock e (ticks w)) (a i)"
proof (cases "map_of (st_m (fst (reapLocked e st w))) i")
  case None
  with represents_None [OF represents_reap [OF assms] None] show ?thesis by simp
next
  case (Some s)
  with represents_Some [OF represents_reap [OF assms] Some] reap_alive [OF represents_wf [OF assms] Some]
  show ?thesis by (simp add: expired_def)
qed

lemma represents_set:
  assumes "represents t st a" and "s_ID s = i" and "gomap_ok (backendSID s)"
  shows "represents t (st\<lparr>st_m := gomap_set i s (st_m st)\<rparr>) (a(i \<mapsto> (BackendSID s, lastSeen s)))"
proof (rule representsI)
  show "store_wf (st\<lparr>st_m := gomap_set i s (st_m st)\<rparr>)"
    using represents_wf [OF assms(1)] assms(2,3) by (rule store_wf_update)
qed (use represents_Some [OF assms(1)] represents_None [OF assms(1)] in
    \<open>auto simp: update_conv' split: if_splits simp del: map_of_eq_Some_iff\<close>)

lemma represents_forget:
  assumes "represents t st a" and "map_of (st_m st) i = None"
  shows "represents t st (a(i := None))"
proof (rule representsI)
  fix j
  show "(a(i := None)) j = Some (BackendSID s, lastSeen s)" if "map_of (st_m st) j = Some s" for s
    using represents_Some [OF assms(1) that] that assms(2) by (auto simp del: map_of_eq_Some_iff)
  show "expired (st_ttl st) t ((a(i := None)) j)" if "map_of (st_m st) j = None"
    using represents_None [OF assms(1) that] by (auto simp: expired_def)
qed (rule represents_wf [OF assms(1)])

lemma stored_session: "store_wf st \<Longrightarrow> map_of (st_m st) i = Some s \<Longrightarrow> s_ID s = i \<and> gomap_ok (backendSID s)"
  by (auto simp: store_wf_def simp del: map_of_eq_Some_iff)

lemma BackendSID_lastSeen [simp]: "BackendSID (s\<lparr>lastSeen := t\<rparr>) = BackendSID s"
  by (simp add: BackendSID_def fun_eq_iff)

lemma BackendSID_record [simp]:
  "BackendSID (s\<lparr>backendSID := gomap_set b sid (backendSID s)\<rparr>) = (BackendSID s)(b \<mapsto> sid)"
  by (simp add: BackendSID_def update_conv' fun_eq_iff)

lemma represents_delete:
  assumes "represents t st a"
  shows "represents t (snd (Delete i st)) (a(i := None))"
proof (rule representsI)
  have m: "map_of (st_m (snd (Delete i st))) = (map_of (st_m st))(i := None)"
    by (auto simp: Delete_def delete_conv' fun_eq_iff split: option.split)
  fix j
  show "(a(i := None)) j = Some (BackendSID s, lastSeen s)" if "map_of (st_m (snd (Delete i st))) j = Some s" for s
    using that represents_Some [OF assms, of j] unfolding m by (auto split: if_splits simp del: map_of_eq_Some_iff)
  show "expired (st_ttl (snd (Delete i st))) t ((a(i := None)) j)" if "map_of (st_m (snd (Delete i st))) j = None"
    using that represents_None [OF assms, of j] unfolding m
    by (auto simp: expired_def split: if_splits simp del: map_of_eq_None_iff)
qed (use represents_wf [OF assms] in \<open>simp add: store_wf_ops\<close>)

lemma reap_ticks: "ticks w \<le> ticks (snd (reapLocked e st w))"
  by (simp add: reapLocked_def time_Now_def)

text \<open>One operation of the store is one step of the specification.\<close>

definition simulates :: "env \<Rightarrow> store_op \<Rightarrow> Store \<Rightarrow> io \<Rightarrow> leases \<Rightarrow> bool" where
  "simulates e op st w a \<longleftrightarrow> (let (out, st', w') = exec_op e op st w;
       t = clock e (ticks w); t' = clock e (max (ticks w) (ticks w' - 1)) in
     t \<le> t' \<and> ticks w \<le> ticks w' \<and> st_ttl st' = st_ttl st
       \<and> (\<exists>a'. lease_step (st_ttl st) t t' a op out a' \<and> represents t' st' a'))"

lemma clock_mono: "\<forall>n. clock e n \<le> clock e (Suc n) \<Longrightarrow> m \<le> n \<Longrightarrow> clock e m \<le> clock e n"
  by (simp add: lift_Suc_mono_le)

lemma simulatesI:
  assumes "\<forall>n. clock e n \<le> clock e (Suc n)" and "exec_op e op st w = (out, st', w')"
    and "ticks w \<le> ticks w'" and "st_ttl st' = st_ttl st"
    and "lease_step (st_ttl st) (clock e (ticks w)) (clock e (max (ticks w) (ticks w' - 1))) a op out a'"
    and "represents (clock e (ticks w)) st' a'"
  shows "simulates e op st w a"
proof -
  have "clock e (ticks w) \<le> clock e (max (ticks w) (ticks w' - 1))"
    by (rule clock_mono [OF assms(1)]) simp
  with assms(2-5) represents_later [OF assms(6)] show ?thesis
    unfolding simulates_def Let_def by (auto simp del: One_nat_def)
qed

lemma simulates_mint:
  assumes "\<forall>n. clock e n \<le> clock e (Suc n)" and "represents (clock e (ticks w)) st a"
  shows "simulates e OpMint st w a"
proof -
  let ?r = "reapLocked e st w"
  let ?s = "fresh_session e (snd ?r)"
  have last: "max (ticks w) (Suc (ticks (snd ?r)) - 1) = ticks (snd ?r)"
    using reap_ticks [of w e st] by simp
  have s: "BackendSID ?s = Map.empty" "lastSeen ?s = clock e (ticks (snd ?r))" "gomap_ok (backendSID ?s)"
    by (simp_all add: fresh_session_def BackendSID_def fun_eq_iff)
  show ?thesis
  proof (rule simulatesI [OF assms(1)])
    show "exec_op e OpMint st w = (Minted (s_ID ?s), (fst ?r)\<lparr>st_m := gomap_set (s_ID ?s) ?s (st_m (fst ?r))\<rparr>,
        (snd ?r)\<lparr>ticks := Suc (ticks (snd ?r)), draws := Suc (draws (snd ?r))\<rparr>)"
      by (simp add: Mint_eq Let_def)
    show "represents (clock e (ticks w)) ((fst ?r)\<lparr>st_m := gomap_set (s_ID ?s) ?s (st_m (fst ?r))\<rparr>)
        (a(s_ID ?s \<mapsto> (Map.empty, clock e (ticks (snd ?r)))))"
      using represents_set [OF represents_reap [OF assms(2)] refl s(3)] by (simp add: s)
  qed (use reap_ticks [of w e st] last in \<open>simp_all add: lease_step.mint\<close>)
qed

lemma simulates_get:
  assumes "\<forall>n. clock e n \<le> clock e (Suc n)" and "represents (clock e (ticks w)) st a"
  shows "simulates e (OpGet i) st w a"
proof -
  let ?r = "reapLocked e st w"
  note rep = represents_reap [OF assms(2)]
  show ?thesis
  proof (cases "map_of (st_m (fst ?r)) i")
    case None
    show ?thesis
    proof (rule simulatesI [OF assms(1)])
      show "exec_op e (OpGet i) st w = (Found None, fst ?r, snd ?r)"
        by (simp add: Get_eq None)
      show "lease_step (st_ttl st) (clock e (ticks w)) (clock e (max (ticks w) (ticks (snd ?r) - 1))) a
          (OpGet i) (Found None) (a(i := None))"
        using None reaped_iff_expired [OF assms(2)] by (blast intro: lease_step.get_expired)
    qed (simp_all add: reap_ticks represents_forget [OF rep None])
  next
    case (Some s)
    let ?s = "s\<lparr>lastSeen := clock e (ticks (snd ?r))\<rparr>"
    have last: "max (ticks w) (Suc (ticks (snd ?r)) - 1) = ticks (snd ?r)"
      using reap_ticks [of w e st] by simp
    have s: "s_ID ?s = i" "gomap_ok (backendSID ?s)"
      using stored_session [OF represents_wf [OF rep] Some] by simp_all
    show ?thesis
    proof (rule simulatesI [OF assms(1)])
      show "exec_op e (OpGet i) st w = (Found (Some (BackendSID s)), (fst ?r)\<lparr>st_m := gomap_set i ?s (st_m (fst ?r))\<rparr>,
          (snd ?r)\<lparr>ticks := Suc (ticks (snd ?r))\<rparr>)"
        by (simp add: Get_eq Some Let_def)
      show "represents (clock e (ticks w)) ((fst ?r)\<lparr>st_m := gomap_set i ?s (st_m (fst ?r))\<rparr>)
          (a(i \<mapsto> (BackendSID s, clock e (ticks (snd ?r)))))"
        using represents_set [OF rep s] by simp
    qed (use reap_ticks [of w e st] last represents_Some [OF rep Some] reap_alive [OF represents_wf [OF assms(2)] Some]
        in \<open>simp_all add: lease_step.get_live\<close>)
  qed
qed

lemma simulates_set:
  assumes "\<forall>n. clock e n \<le> clock e (Suc n)" and "represents (clock e (ticks w)) st a"
  shows "simulates e (OpSet i b sid) st w a"
proof (cases "map_of (st_m st) i")
  case None
  show ?thesis
  proof (rule simulatesI [OF assms(1)])
    show "exec_op e (OpSet i b sid) st w = (Recorded, st, w)"
      by (simp add: SetBackendSID_eq None)
    show "represents (clock e (ticks w)) st (a(i := None))" by (rule represents_forget [OF assms(2) None])
  qed (simp_all add: lease_step.set_expired represents_None [OF assms(2) None])
next
  case (Some s)
  let ?s = "s\<lparr>backendSID := gomap_set b sid (backendSID s), lastSeen := clock e (ticks w)\<rparr>"
  have s: "s_ID ?s = i" "gomap_ok (backendSID ?s)"
    using stored_session [OF represents_wf [OF assms(2)] Some] by simp_all
  show ?thesis
  proof (rule simulatesI [OF assms(1)])
    show "exec_op e (OpSet i b sid) st w = (Recorded, st\<lparr>st_m := gomap_set i ?s (st_m st)\<rparr>, w\<lparr>ticks := Suc (ticks w)\<rparr>)"
      by (simp add: SetBackendSID_eq Some)
    show "represents (clock e (ticks w)) (st\<lparr>st_m := gomap_set i ?s (st_m st)\<rparr>)
        (a(i \<mapsto> ((BackendSID s)(b \<mapsto> sid), clock e (ticks w))))"
      using represents_set [OF assms(2) s] by simp
  qed (use represents_Some [OF assms(2) Some] in \<open>simp_all add: lease_step.set_known\<close>)
qed

lemma simulates_delete:
  assumes "\<forall>n. clock e n \<le> clock e (Suc n)" and "represents (clock e (ticks w)) st a"
  shows "simulates e (OpDelete i) st w a"
proof (rule simulatesI [OF assms(1)])
  show "exec_op e (OpDelete i) st w = (Deleted (map_option BackendSID (map_of (st_m st) i)), snd (Delete i st), w)"
    by (simp add: Delete_def split: option.split)
  show "lease_step (st_ttl st) (clock e (ticks w)) (clock e (max (ticks w) (ticks w - 1))) a
      (OpDelete i) (Deleted (map_option BackendSID (map_of (st_m st) i))) (a(i := None))"
    using represents_Some [OF assms(2), of i] represents_None [OF assms(2), of i]
    by (cases "map_of (st_m st) i") (simp_all add: lease_step.del_known lease_step.del_expired)
qed (simp_all add: represents_delete [OF assms(2)])

lemma simulates_len:
  assumes "\<forall>n. clock e n \<le> clock e (Suc n)" and "represents (clock e (ticks w)) st a"
  shows "simulates e OpLen st w a"
proof (rule simulatesI [OF assms(1)])
  let ?r = "reapLocked e st w"
  show "exec_op e OpLen st w = (Counted (length (st_m (fst ?r))), fst ?r, snd ?r)"
    by (simp add: Len_def split: prod.split)
  have "gomap_ok (st_m (fst ?r))"
    using represents_wf [OF represents_reap [OF assms(2)]] by (simp add: store_wf_def)
  then have "length (st_m (fst ?r)) = card (dom (map_of (st_m (fst ?r))))"
    by (metis distinct_card dom_map_of_conv_image_fst length_map list.set_map)
  also have "dom (map_of (st_m (fst ?r))) = {i. \<not> expired (st_ttl st) (clock e (ticks w)) (a i)}"
    using reaped_iff_expired [OF assms(2)] by (simp add: dom_def del: map_of_eq_None_iff)
  finally show "lease_step (st_ttl st) (clock e (ticks w)) (clock e (max (ticks w) (ticks (snd ?r) - 1))) a
      OpLen (Counted (length (st_m (fst ?r)))) a"
    by (simp only: lease_step.len)
qed (simp_all add: reap_ticks represents_reap [OF assms(2)])

lemma simulation:
  "\<forall>n. clock e n \<le> clock e (Suc n) \<Longrightarrow> represents (clock e (ticks w)) st a \<Longrightarrow> simulates e op st w a"
  by (cases op) (simp_all add: simulates_mint simulates_get simulates_set simulates_delete simulates_len)

lemma run_simulation:
  assumes "\<forall>n. clock e n \<le> clock e (Suc n)"
  shows "exec_ops e ops st w = (tr, st', w') \<Longrightarrow> lease_run (st_ttl st) t0 pre a now \<Longrightarrow> represents now st a \<Longrightarrow>
    now \<le> clock e (ticks w) \<Longrightarrow>
    \<exists>a' now'. lease_run (st_ttl st) t0 (pre @ tr) a' now' \<and> represents now' st' a' \<and> st_ttl st' = st_ttl st"
proof (induction ops arbitrary: st w tr pre a now)
  case Nil
  then show ?case by auto
next
  case (Cons g ops)
  obtain gap op where g: "g = (gap, op)" by (cases g)
  let ?w = "w\<lparr>ticks := ticks w + gap\<rparr>"
  obtain out st1 w1 where one: "exec_op e op st ?w = (out, st1, w1)" by (cases "exec_op e op st ?w") auto
  obtain tr1 where rest: "exec_ops e ops st1 w1 = (tr1, st', w')"
    and tr: "tr = (clock e (ticks ?w), clock e (max (ticks ?w) (ticks w1 - 1)), op, out) # tr1"
    using Cons.prems(1) g one by (auto simp: Let_def split: prod.splits)
  have later: "now \<le> clock e (ticks ?w)"
    using Cons.prems(4) clock_mono [OF assms, of "ticks w" "ticks w + gap"] by simp
  have "simulates e op st ?w a"
    by (rule simulation [OF assms represents_later [OF Cons.prems(3) later]])
  then obtain a1 where le: "clock e (ticks ?w) \<le> clock e (max (ticks ?w) (ticks w1 - 1))"
    and ticks: "ticks ?w \<le> ticks w1" and ttl: "st_ttl st1 = st_ttl st"
    and s: "lease_step (st_ttl st) (clock e (ticks ?w)) (clock e (max (ticks ?w) (ticks w1 - 1))) a op out a1"
    and r: "represents (clock e (max (ticks ?w) (ticks w1 - 1))) st1 a1"
    unfolding simulates_def one by (auto simp: Let_def)
  note run = lease_run.step [OF Cons.prems(2) later le s]
  have "clock e (max (ticks ?w) (ticks w1 - 1)) \<le> clock e (ticks w1)"
    by (rule clock_mono [OF assms]) (use ticks in simp)
  from Cons.IH [OF rest run [folded ttl] r this] show ?case by (simp add: ttl tr)
qed

lemma store_run_refines:
  assumes "\<forall>n. clock e n \<le> clock e (Suc n)" and "exec_ops e ops (NewStore ttl) w = (tr, st, w')"
  shows "\<exists>a now. lease_run ttl (clock e (ticks w)) tr a now \<and> represents now st a"
proof -
  have "st_ttl (NewStore ttl) = ttl" by (simp add: NewStore_def)
  with run_simulation [OF assms lease_run.start represents_New order_refl] show ?thesis by auto
qed

text \<open>C25. The session store implements leases. Whatever operations a new store executes, in whatever
  order and with whatever pauses, as long as the clock does not run backwards, what it answers is
  what the specification answers at the times the clock showed: sweeping the map never loses a
  session that is in use, never keeps an expired one alive for a lookup or a count, and never mixes
  up what sessions hold.\<close>

theorem store_refines_leases:
  assumes "\<forall>n. clock e n \<le> clock e (Suc n)" and "exec_ops e ops (NewStore ttl) w = (tr, st, w')"
  shows "\<exists>a now. lease_run ttl (clock e (ticks w)) tr a now \<and> represents now st a"
  using assms by (rule store_run_refines)

text \<open>A history: a session is minted, something is recorded for it, it is looked up in time and once
  more when it has been idle for too long.\<close>

definition example_id :: string where
  "example_id = hex_EncodeToString ''0123456789abcdef''"

definition example_ops :: "(nat \<times> store_op) list" where
  "example_ops = [(0, OpMint), (1, OpSet example_id ''acme'' ''b1''), (0, OpLen), (2, OpGet example_id), (9, OpGet example_id)]"

lemma quiet_clock: "\<forall>n. clock quiet_env n \<le> clock quiet_env (Suc n)"
  by (simp add: quiet_env_def)

definition example_trace :: "event list" where
  "example_trace = [(0, 1, OpMint, Minted example_id), (3, 3, OpSet example_id ''acme'' ''b1'', Recorded),
     (4, 4, OpLen, Counted 1), (7, 8, OpGet example_id, Found (Some [''acme'' \<mapsto> ''b1''])),
     (18, 18, OpGet example_id, Found None)]"

lemma example_session:
  "fresh_session quiet_env w = \<lparr>s_ID = example_id, created = int (ticks w), lastSeen = int (ticks w), backendSID = []\<rparr>"
  by (simp add: fresh_session_def quiet_env_def example_id_def)

lemma example_history:
  "exec_ops quiet_env example_ops (NewStore 5) init_io = (example_trace, NewStore 5, init_io\<lparr>ticks := 19, draws := 1\<rparr>)"
proof -
  have s: "BackendSID x = map_of (backendSID x)" for x by (simp add: BackendSID_def fun_eq_iff)
  have c: "clock quiet_env n = int n" for n by (simp add: quiet_env_def)
  show ?thesis
    by (simp add: Let_def example_ops_def example_trace_def Mint_eq Get_eq SetBackendSID_eq Len_def reapLocked_def
        time_Now_def example_session c s NewStore_def init_io_def)
qed

theorem store_refines_leases_witness:
  "\<exists>a now. lease_run 5 0 example_trace a now \<and> represents now (NewStore 5) a"
  using store_refines_leases [OF quiet_clock example_history] by (simp add: quiet_env_def init_io_def)

section \<open>What a history says about a session\<close>

definition ends :: "string \<Rightarrow> event \<Rightarrow> bool" where
  "ends i ev = (case ev of (_, _, op, out) \<Rightarrow> op = OpDelete i \<or> out = Minted i \<or> op = OpGet i \<and> out = Found None)"

text \<open>The session is used: it is minted, found, or something is recorded for it.\<close>

definition uses :: "string \<Rightarrow> event \<Rightarrow> bool" where
  "uses i ev = (case ev of (_, _, op, out) \<Rightarrow>
     out = Minted i \<or> op = OpGet i \<and> out \<noteq> Found None \<or> (\<exists>b sid. op = OpSet i b sid))"

fun record_event :: "string \<Rightarrow> (string \<Rightarrow> string option) \<Rightarrow> event \<Rightarrow> string \<Rightarrow> string option" where
  "record_event i f (_, _, OpSet j b sid, _) = (if j = i then f(b \<mapsto> sid) else f)"
| "record_event i f _ = f"

text \<open>What was recorded for a session, the last record for a tenant winning.\<close>

definition recorded :: "string \<Rightarrow> event list \<Rightarrow> string \<Rightarrow> string option" where
  "recorded i evs = foldl (record_event i) Map.empty evs"

lemma recorded_Nil [simp]: "recorded i [] = Map.empty"
  by (simp add: recorded_def)

lemma recorded_snoc [simp]: "recorded i (evs @ [ev]) = record_event i (recorded i evs) ev"
  by (simp add: recorded_def)

text \<open>A lease with bindings \<open>f\<close>, last used at \<open>l\<close>, accounted for by a history.\<close>

definition accounted :: "string \<Rightarrow> event list \<Rightarrow> (string \<Rightarrow> string option) \<Rightarrow> int \<Rightarrow> bool" where
  "accounted i tr f l \<longleftrightarrow> (\<exists>us t t' vs. tr = us @ (t, t', OpMint, Minted i) # vs
     \<and> (\<forall>ev \<in> set vs. \<not> ends i ev) \<and> f = recorded i vs
     \<and> (\<exists>ev \<in> insert (t, t', OpMint, Minted i) (set vs). uses i ev \<and> fst (snd ev) = l))"

lemma accounted_mint: "accounted i (tr @ [(t, t', OpMint, Minted i)]) Map.empty t'"
  unfolding accounted_def by (rule exI [of _ tr]) (auto simp: uses_def)

lemma accounted_use:
  assumes "accounted i tr f l" and "\<not> ends i ev" and "uses i ev"
  shows "accounted i (tr @ [ev]) (record_event i f ev) (fst (snd ev))"
proof -
  obtain us t t' vs where tr: "tr @ [ev] = us @ (t, t', OpMint, Minted i) # (vs @ [ev])"
    and "\<forall>x \<in> set (vs @ [ev]). \<not> ends i x" and "record_event i f ev = recorded i (vs @ [ev])"
    using assms(1,2) unfolding accounted_def by auto
  moreover have "\<exists>x \<in> insert (t, t', OpMint, Minted i) (set (vs @ [ev])). uses i x \<and> fst (snd x) = fst (snd ev)"
    using assms(3) by auto
  ultimately show ?thesis unfolding accounted_def by blast
qed

lemma accounted_other:
  assumes "accounted i tr f l" and "\<not> ends i ev" and "record_event i f ev = f"
  shows "accounted i (tr @ [ev]) f l"
proof -
  obtain us t t' vs where tr: "tr = us @ (t, t', OpMint, Minted i) # vs"
    and "\<forall>x \<in> set vs. \<not> ends i x" and f: "f = recorded i vs"
    and u: "\<exists>x \<in> insert (t, t', OpMint, Minted i) (set vs). uses i x \<and> fst (snd x) = l"
    using assms(1) unfolding accounted_def by blast
  then have "tr @ [ev] = us @ (t, t', OpMint, Minted i) # (vs @ [ev])" and "\<forall>x \<in> set (vs @ [ev]). \<not> ends i x"
    using assms(2) by auto
  moreover have "f = recorded i (vs @ [ev])" using f assms(3) by simp
  moreover have "\<exists>x \<in> insert (t, t', OpMint, Minted i) (set (vs @ [ev])). uses i x \<and> fst (snd x) = l"
    using u by auto
  ultimately show ?thesis unfolding accounted_def by blast
qed

lemma accounted_step:
  assumes "lease_step ttl t t' a op out a'" and acc: "\<And>i f l. a i = Some (f, l) \<Longrightarrow> accounted i tr f l"
    and a': "a' i = Some (f, l)"
  shows "accounted i (tr @ [(t, t', op, out)]) f l"
proof -
  have other: ?thesis
    if "a i = Some (f, l)" "\<not> ends i (t, t', op, out)" "record_event i f (t, t', op, out) = f"
    using that by (intro accounted_other acc)
  have used: ?thesis
    if "a i = Some (g, k)" "\<not> ends i (t, t', op, out)" "uses i (t, t', op, out)"
      "f = record_event i g (t, t', op, out)" "l = t'" for g k
    using accounted_use [OF acc [OF that(1)] that(2,3)] that(4,5) by simp
  show ?thesis
    using assms(1)
  proof (cases rule: lease_step.cases)
    case (mint j)
    show ?thesis
    proof (cases "i = j")
      case True
      with mint a' have "f = Map.empty" and "l = t'" by simp_all
      with mint True show ?thesis by (simp only: accounted_mint)
    next
      case False
      with mint a' show ?thesis by (intro other) (simp_all add: ends_def)
    qed
  next
    case (get_live j g k)
    show ?thesis
    proof (cases "i = j")
      case True
      with get_live a' show ?thesis by (intro used [of g k]) (simp_all add: ends_def uses_def)
    next
      case False
      with get_live a' show ?thesis by (intro other) (simp_all add: ends_def)
    qed
  next
    case (set_known j g k b sid)
    show ?thesis
    proof (cases "i = j")
      case True
      with set_known a' show ?thesis by (intro used [of g k]) (simp_all add: ends_def uses_def)
    next
      case False
      with set_known a' show ?thesis by (intro other) (simp_all add: ends_def)
    qed
  qed (rule other; use a' in \<open>auto simp: ends_def split: if_splits\<close>)+
qed

lemma lease_run_accounted: "lease_run ttl t0 tr a now \<Longrightarrow> a i = Some (f, l) \<Longrightarrow> accounted i tr f l"
proof (induction arbitrary: i f l rule: lease_run.induct)
  case start
  then show ?case by simp
next
  case (step tr a now t t' op out a')
  show ?case by (rule accounted_step [OF step.hyps(4) step.IH step.prems])
qed

lemma lease_run_append:
  "lease_run ttl t0 tr a now \<Longrightarrow> tr = xs @ ev # ys \<Longrightarrow>
   \<exists>b b' m. lease_run ttl t0 xs b m \<and> lease_step ttl (fst ev) (fst (snd ev)) b (fst (snd (snd ev))) (snd (snd (snd ev))) b'"
proof (induction arbitrary: ys rule: lease_run.induct)
  case start
  then show ?case by simp
next
  case (step tr a now t t' op out a')
  show ?case
  proof (cases ys rule: rev_cases)
    case Nil
    with step.prems have "xs = tr" and "ev = (t, t', op, out)" by simp_all
    with step.hyps(1,4) show ?thesis by auto
  next
    case (snoc zs z)
    with step.prems have "tr = xs @ ev # zs" by simp
    then show ?thesis by (rule step.IH)
  qed
qed

text \<open>C26. A session that is handed out, by a lookup or by a deletion, was minted by the store under that
  id; since then it was not deleted and never reported missing; and what it holds is exactly what was
  recorded for it since then, the last record for each tenant winning. A lookup succeeds only when the
  session was minted, found or recorded for within the time to live before.\<close>

theorem sessions_accounted:
  assumes "\<forall>n. clock e n \<le> clock e (Suc n)" and "exec_ops e ops (NewStore ttl) w = (xs @ (t, t', op, out) # ys, st, w')"
    and "op = OpGet i \<and> out = Found (Some f) \<or> op = OpDelete i \<and> out = Deleted (Some f)"
  shows "\<exists>us m m' vs. xs = us @ (m, m', OpMint, Minted i) # vs \<and> (\<forall>ev \<in> set vs. \<not> ends i ev)
    \<and> f = recorded i vs
    \<and> (op = OpGet i \<and> 0 < ttl \<longrightarrow>
         (\<exists>ev \<in> insert (m, m', OpMint, Minted i) (set vs). uses i ev \<and> t - fst (snd ev) \<le> ttl))"
proof -
  obtain a now where "lease_run ttl (clock e (ticks w)) (xs @ (t, t', op, out) # ys) a now"
    using store_run_refines [OF assms(1,2)] by blast
  from lease_run_append [OF this refl] obtain b b' n where run: "lease_run ttl (clock e (ticks w)) xs b n"
    and s: "lease_step ttl t t' b op out b'" by auto
  obtain l where l: "b i = Some (f, l)" and live: "op = OpGet i \<Longrightarrow> alive ttl t l"
    using s assms(3) by (auto elim: get_stepE delete_stepE)
  from lease_run_accounted [OF run l] live show ?thesis
    unfolding accounted_def alive_def by blast
qed

theorem sessions_accounted_witness:
  "\<exists>us m m' vs. take 3 example_trace = us @ (m, m', OpMint, Minted example_id) # vs
     \<and> [''acme'' \<mapsto> ''b1''] = recorded example_id vs"
proof -
  have "exec_ops quiet_env example_ops (NewStore 5) init_io =
      (take 3 example_trace @ (7, 8, OpGet example_id, Found (Some [''acme'' \<mapsto> ''b1''])) # drop 4 example_trace,
       NewStore 5, init_io\<lparr>ticks := 19, draws := 1\<rparr>)"
    unfolding example_history by (simp add: example_trace_def)
  from sessions_accounted [OF quiet_clock this, of example_id] show ?thesis by blast
qed

section \<open>A session in use is not lost\<close>

text \<open>
  Follows the uses of a session through a stretch of history in which it is neither deleted nor
  minted again: the time of its last use, as long as no use came later than the time to live after
  the one before.
\<close>

definition keep_event :: "int \<Rightarrow> string \<Rightarrow> int option \<Rightarrow> event \<Rightarrow> int option" where
  "keep_event ttl i lo ev = (case (lo, ev) of
       (Some l, (t, t', op, out)) \<Rightarrow>
         if op = OpDelete i \<or> out = Minted i then None
         else if op = OpGet i \<or> (\<exists>b sid. op = OpSet i b sid) then (if alive ttl t l then Some t' else None)
         else Some l
     | _ \<Rightarrow> None)"

definition kept_until :: "int \<Rightarrow> string \<Rightarrow> int \<Rightarrow> event list \<Rightarrow> int option" where
  "kept_until ttl i l evs = foldl (keep_event ttl i) (Some l) evs"

lemma kept_step:
  assumes "lease_step ttl t t' a op out a'" and "a i = Some (f, l)"
    and "keep_event ttl i (Some l) (t, t', op, out) = Some l'"
  shows "a' i = Some (record_event i f (t, t', op, out), l')"
  using assms by (cases rule: lease_step.cases)
    (auto simp: keep_event_def expired_def split: if_splits)

lemma kept_run:
  "lease_run ttl t0 tr a now \<Longrightarrow> tr = us @ (m, m', OpMint, Minted i) # vs \<Longrightarrow> kept_until ttl i m' vs = Some l \<Longrightarrow>
   a i = Some (recorded i vs, l)"
proof (induction arbitrary: vs l rule: lease_run.induct)
  case start
  then show ?case by simp
next
  case (step tr a now t t' op out a')
  show ?case
  proof (cases vs rule: rev_cases)
    case Nil
    with step.prems have "op = OpMint" "out = Minted i" "l = t'" by (auto simp: kept_until_def)
    with step.hyps(4) Nil show ?thesis by (auto elim: mint_stepE)
  next
    case (snoc ws ev)
    with step.prems(1) have tr: "tr = us @ (m, m', OpMint, Minted i) # ws" and ev: "ev = (t, t', op, out)" by simp_all
    from step.prems(2) snoc obtain k where k: "kept_until ttl i m' ws = Some k"
      and l: "keep_event ttl i (Some k) ev = Some l"
      by (cases "kept_until ttl i m' ws") (auto simp: kept_until_def keep_event_def)
    from kept_step [OF step.hyps(4) step.IH [OF tr k] l [unfolded ev]] show ?thesis by (simp add: snoc ev)
  qed
qed

text \<open>C27. A client that keeps using its session keeps it. Take a session the store minted, at any point of
  any history, and any operations after it, on this session and on others, none of which deletes it or
  mints its id again; if each lookup and each record for this session came at most the time to live after
  the use before, then a lookup that also does succeeds, and it shows what was recorded in between.\<close>

theorem kept_session_found:
  assumes "\<forall>n. clock e n \<le> clock e (Suc n)"
    and "exec_ops e ops (NewStore ttl) w = (us @ (m, m', OpMint, Minted i) # vs @ (t, t', OpGet i, out) # ys, st, w')"
    and "kept_until ttl i m' vs = Some l" and "0 < ttl \<longrightarrow> t - l \<le> ttl"
  shows "out = Found (Some (recorded i vs))"
proof -
  obtain a now where "lease_run ttl (clock e (ticks w)) ((us @ (m, m', OpMint, Minted i) # vs) @ (t, t', OpGet i, out) # ys) a now"
    using store_run_refines [OF assms(1,2)] by auto
  from lease_run_append [OF this refl] obtain b b' n
    where run: "lease_run ttl (clock e (ticks w)) (us @ (m, m', OpMint, Minted i) # vs) b n"
    and s: "lease_step ttl t t' b (OpGet i) out b'" by auto
  from kept_run [OF run refl assms(3)] s assms(4) show ?thesis
    by (auto simp: expired_def alive_def elim: get_stepE)
qed

theorem kept_session_found_witness:
  "[''acme'' \<mapsto> ''b1''] = recorded example_id (take 2 (drop 1 example_trace))"
proof -
  have h: "exec_ops quiet_env example_ops (NewStore 5) init_io =
      ([] @ (0, 1, OpMint, Minted example_id) # take 2 (drop 1 example_trace)
         @ (7, 8, OpGet example_id, Found (Some [''acme'' \<mapsto> ''b1''])) # drop 4 example_trace,
       NewStore 5, init_io\<lparr>ticks := 19, draws := 1\<rparr>)"
    unfolding example_history by (simp add: example_trace_def)
  have k: "kept_until 5 example_id 1 (take 2 (drop 1 example_trace)) = Some 3"
    by (simp add: example_trace_def kept_until_def keep_event_def alive_def)
  show ?thesis using kept_session_found [OF quiet_clock h k] by simp
qed

end
