(* ===== verification/Mcp.thy ===== *)
theory Mcp
  imports Go_Http
begin

text \<open>
  The wire format of the Model Context Protocol (\<^verbatim>\<open>internal/proxy/mcp.go\<close>): JSON-RPC requests and
  responses, and the two framings of a response body, a JSON text or server-sent events.
\<close>

definition mcpSessionHeader :: string where "mcpSessionHeader = ''Mcp-Session-Id''"
definition mcpProtocolVersionHeader :: string where "mcpProtocolVersionHeader = ''MCP-Protocol-Version''"
definition mcpMethodHeader :: string where "mcpMethodHeader = ''Mcp-Method''"
definition mcpNameHeader :: string where "mcpNameHeader = ''Mcp-Name''"

section \<open>Requests\<close>

record jsonRPCRequest =
  rq_JSONRPC :: string
  rq_Method :: string
  rq_Params :: RawMessage
  rq_ID :: RawMessage

text \<open>\<^verbatim>\<open>json.Unmarshal(..., &req)\<close>: a top-level \<open>null\<close> leaves the zero request.\<close>

definition Unmarshal_request :: "json \<Rightarrow> string + jsonRPCRequest" where
  "Unmarshal_request v =
     (case v of
        JObj kvs \<Rightarrow>
          (case (string_field ''jsonrpc'' kvs, string_field ''method'' kvs) of
             (Some j, Some m) \<Rightarrow>
               Inr \<lparr>rq_JSONRPC = j, rq_Method = m, rq_Params = raw_field ''params'' kvs, rq_ID = raw_field ''id'' kvs\<rparr>
           | _ \<Rightarrow> Inl ''json: cannot unmarshal field into string'')
      | JNull \<Rightarrow> Inr \<lparr>rq_JSONRPC = [], rq_Method = [], rq_Params = None, rq_ID = None\<rparr>
      | _ \<Rightarrow> Inl ''json: cannot unmarshal into jsonRPCRequest'')"

definition Unmarshal_request_text :: "string \<Rightarrow> string + jsonRPCRequest" where
  "Unmarshal_request_text s =
     (case json_parse s of None \<Rightarrow> Inl ''invalid JSON'' | Some v \<Rightarrow> Unmarshal_request v)"

text \<open>\<^verbatim>\<open>json.Marshal(req)\<close>: empty params and an empty id are omitted.\<close>

definition Marshal_request :: "jsonRPCRequest \<Rightarrow> json" where
  "Marshal_request r =
     JObj ([(''jsonrpc'', JStr (rq_JSONRPC r)), (''method'', JStr (rq_Method r))]
       @ (case rq_Params r of None \<Rightarrow> [] | Some v \<Rightarrow> [(''params'', v)])
       @ (case rq_ID r of None \<Rightarrow> [] | Some v \<Rightarrow> [(''id'', v)]))"

definition isNotification :: "jsonRPCRequest \<Rightarrow> bool" where
  "isNotification r \<longleftrightarrow> rq_ID r = None \<or> rq_ID r = Some JNull"

record toolCallParams =
  tp_Name :: string
  tp_Arguments :: RawMessage

definition Unmarshal_toolCallParams :: "RawMessage \<Rightarrow> string + toolCallParams" where
  "Unmarshal_toolCallParams raw =
     (case raw of
        None \<Rightarrow> Inl ''unexpected end of JSON input''
      | Some (JObj kvs) \<Rightarrow>
          (case string_field ''name'' kvs of
             None \<Rightarrow> Inl ''json: cannot unmarshal field into string''
           | Some n \<Rightarrow> Inr \<lparr>tp_Name = n, tp_Arguments = raw_field ''arguments'' kvs\<rparr>)
      | Some JNull \<Rightarrow> Inr \<lparr>tp_Name = [], tp_Arguments = None\<rparr>
      | Some _ \<Rightarrow> Inl ''json: cannot unmarshal into toolCallParams'')"

type_synonym rawTool = "(string, json) gomap"

text \<open>
  \<^verbatim>\<open>toolsListResult\<close>, decoded into a value that may already hold something (a repeated member is
  decoded over the earlier one, element by element): \<open>None\<close> is a type error. A nil slice is
  \<open>Some None\<close>, and a null element is a nil map, which reads as an empty one.
\<close>

fun Unmarshal_tool_items :: "rawTool list \<Rightarrow> json list \<Rightarrow> rawTool list option" where
  "Unmarshal_tool_items old [] = Some []"
| "Unmarshal_tool_items old (v # vs) =
     (case (v, Unmarshal_tool_items (tl old) vs) of
        (JObj kvs, Some ts) \<Rightarrow>
          Some (fold (\<lambda>(k, x) m. gomap_set k x m) kvs (case old of [] \<Rightarrow> [] | m # _ \<Rightarrow> m) # ts)
      | (JNull, Some ts) \<Rightarrow> Some ([] # ts)
      | _ \<Rightarrow> None)"

definition Unmarshal_tools :: "rawTool list option \<Rightarrow> json \<Rightarrow> rawTool list option option" where
  "Unmarshal_tools old v =
     (case v of
        JArr vs \<Rightarrow> map_option Some (Unmarshal_tool_items (case old of None \<Rightarrow> [] | Some ts \<Rightarrow> ts) vs)
      | JNull \<Rightarrow> Some None
      | _ \<Rightarrow> None)"

definition Unmarshal_toolsListResult :: "rawTool list option \<Rightarrow> json \<Rightarrow> rawTool list option option" where
  "Unmarshal_toolsListResult old v =
     (case v of
        JObj kvs \<Rightarrow>
          fold (\<lambda>x acc. case acc of None \<Rightarrow> None | Some ts \<Rightarrow> Unmarshal_tools ts x) (field_members ''tools'' kvs) (Some old)
      | JNull \<Rightarrow> Some old
      | _ \<Rightarrow> None)"

section \<open>Response bodies\<close>

text \<open>
  \<^verbatim>\<open>bufio.Scanner\<close> with \<^verbatim>\<open>ScanLines\<close>: the pieces between line feeds, the last one only when it is
  not empty; one trailing carriage return is dropped.
\<close>

fun scan_lines :: "string \<Rightarrow> string \<Rightarrow> string list" where
  "scan_lines acc [] = (if acc = [] then [] else [acc])"
| "scan_lines acc (c # s) = (if c = CHR 0x0A then acc # scan_lines [] s else scan_lines (acc @ [c]) s)"

definition dropCR :: "string \<Rightarrow> string" where
  "dropCR l = (if l \<noteq> [] \<and> last l = CHR 0x0D then butlast l else l)"

text \<open>The size of the scanner's buffer: a line that fills it is an error.\<close>

definition maxLine :: nat where
  "maxLine = 16777216"

fun sse_loop :: "bool \<Rightarrow> string list \<Rightarrow> string list \<Rightarrow> string + string" where
  "sse_loop err data [] =
     (if err then Inl ''read error''
      else if data \<noteq> [] then Inr (Join data [CHR 0x0A])
      else Inl ''no data payload in SSE stream'')"
| "sse_loop err data (l # ls) =
     (if maxLine \<le> length l then Inl ''bufio.Scanner: token too long''
      else (let line = dropCR l in
            if line = [] then (if data \<noteq> [] then Inr (Join data [CHR 0x0A]) else sse_loop err data ls)
            else if HasPrefix line ''data:''
            then sse_loop err (data @ [TrimPrefix (TrimPrefix line ''data:'') '' '']) ls
            else sse_loop err data ls))"

definition decodeSSE :: "string \<Rightarrow> bool \<Rightarrow> string + string" where
  "decodeSSE body err = sse_loop err [] (scan_lines [] body)"

definition decodeBody :: "string \<Rightarrow> string \<Rightarrow> bool \<Rightarrow> string + string" where
  "decodeBody contentType body err =
     (if Contains contentType ''text/event-stream'' then decodeSSE body err
      else if err then Inl ''read error'' else Inr body)"

section \<open>Responses\<close>

definition jsonRPCResult :: "RawMessage \<Rightarrow> json \<Rightarrow> json" where
  "jsonRPCResult i result =
     Marshal_map ([(''jsonrpc'', JStr ''2.0''), (''result'', result)]
       @ (case i of None \<Rightarrow> [] | Some v \<Rightarrow> [(''id'', v)]))"

definition writeJSONRPCResult :: "RawMessage \<Rightarrow> json \<Rightarrow> hresp \<Rightarrow> hresp" where
  "writeJSONRPCResult i result w = w\<lparr>rbody := BJson (jsonRPCResult i result)\<rparr>"

definition toolResultText :: "string \<Rightarrow> bool \<Rightarrow> (string, json) gomap" where
  "toolResultText txt isError =
     [(''content'', JArr [Marshal_map [(''type'', JStr ''text''), (''text'', JStr txt)]]),
      (''isError'', JBool isError)]"

definition jsonRPCErrorBytes :: "RawMessage \<Rightarrow> int \<Rightarrow> string \<Rightarrow> json" where
  "jsonRPCErrorBytes i code message =
     Marshal_map ([(''jsonrpc'', JStr ''2.0''),
         (''error'', Marshal_map [(''code'', JNum (FormatInt code)), (''message'', JStr message)])]
       @ (case i of None \<Rightarrow> [] | Some v \<Rightarrow> [(''id'', v)]))"

section \<open>Requests survive the wire\<close>

lemma json_fold_names:
  "json_fold ''jsonrpc'' = ''JSONRPC''" "json_fold ''method'' = ''METHOD''"
  "json_fold ''params'' = ''PARAMS''" "json_fold ''id'' = ''ID''"
  "json_fold ''name'' = ''NAME''" "json_fold ''arguments'' = ''ARGUMENTS''"
  by code_simp+

lemma Unmarshal_Marshal_request: "Unmarshal_request (Marshal_request r) = Inr r"
  by (cases r) (auto simp: Marshal_request_def Unmarshal_request_def string_field_def raw_field_def
      field_members_def json_fold_names Let_def
      split: option.split simp del: json_fold.simps)

text \<open>A request the proxy writes is read back as the same request: nothing is lost or added on the
  way, whatever its params and id are.\<close>

lemma request_roundtrip: "Unmarshal_request (Marshal_request r) = Inr r"
  by (rule Unmarshal_Marshal_request)

section \<open>Server-sent events\<close>

text \<open>An event as a backend frames it: comments and other fields, then one \<open>data\<close> line for each line of
  the payload, then a blank line.\<close>

definition data_line :: "string \<Rightarrow> string" where
  "data_line l = ''data: '' @ l"

definition sse_event :: "string list \<Rightarrow> string list \<Rightarrow> string" where
  "sse_event pre ls = concat (map (\<lambda>l. l @ [CHR 0x0A]) (pre @ map data_line ls)) @ [CHR 0x0A]"

definition data_line_ok :: "string \<Rightarrow> bool" where
  "data_line_ok l \<longleftrightarrow> CHR 0x0A \<notin> set l \<and> length l + 6 < maxLine \<and> (l = [] \<or> last l \<noteq> CHR 0x0D)"

definition other_line_ok :: "string \<Rightarrow> bool" where
  "other_line_ok l \<longleftrightarrow> CHR 0x0A \<notin> set l \<and> length l < maxLine \<and> \<not> HasPrefix (dropCR l) ''data:''"

lemma scan_lines_line: "CHR 0x0A \<notin> set l \<Longrightarrow> scan_lines acc (l @ CHR 0x0A # s) = (acc @ l) # scan_lines [] s"
  by (induction l arbitrary: acc) auto

lemma scan_lines_concat:
  "\<forall>l \<in> set ls. CHR 0x0A \<notin> set l \<Longrightarrow>
   scan_lines [] (concat (map (\<lambda>l. l @ [CHR 0x0A]) ls) @ s) = ls @ scan_lines [] s"
  by (induction ls) (simp_all add: scan_lines_line)

lemma sse_loop_other:
  "\<forall>l \<in> set pre. other_line_ok l \<Longrightarrow> sse_loop err [] (pre @ ls) = sse_loop err [] ls"
  by (induction pre) (simp_all add: other_line_ok_def Let_def)

lemma sse_loop_data_line:
  assumes "data_line_ok l"
  shows "sse_loop err data (data_line l # ls) = sse_loop err (data @ [l]) ls"
proof -
  have cr: "dropCR (''data: '' @ l) = ''data: '' @ l"
    using assms by (auto simp: dropCR_def data_line_ok_def)
  have trim: "TrimPrefix (TrimPrefix (''data: '' @ l) ''data:'') '' '' = l"
    by (simp add: TrimPrefix_def HasPrefix_def)
  have "\<not> maxLine \<le> length (''data: '' @ l)" "HasPrefix (''data: '' @ l) ''data:''" "''data: '' @ l \<noteq> []"
    using assms by (simp_all add: data_line_ok_def HasPrefix_def)
  with cr trim show ?thesis by (simp only: data_line_def sse_loop.simps Let_def if_True if_False)
qed

lemma sse_loop_data:
  "\<forall>l \<in> set ls. data_line_ok l \<Longrightarrow>
   sse_loop err data (map data_line ls @ rest) = sse_loop err (data @ ls) rest"
proof (induction ls arbitrary: data)
  case (Cons l ls)
  then show ?case by (simp add: sse_loop_data_line del: sse_loop.simps)
qed simp

text \<open>C36. The first event of a stream is decoded to its payload: the lines of its data fields joined by
  line feeds, whatever comments and other fields precede them, whatever the backend streams after
  the event, and even when reading fails later on.\<close>

theorem SSE_roundtrip:
  assumes "Contains contentType ''text/event-stream''" and "list_all other_line_ok pre"
    and "list_all data_line_ok ls" and "ls \<noteq> []"
  shows "decodeBody contentType (sse_event pre ls @ rest) err = Inr (Join ls [CHR 0x0A])"
proof -
  have "\<forall>l \<in> set (pre @ map data_line ls). CHR 0x0A \<notin> set l"
    using assms(2,3) by (auto simp: list_all_iff other_line_ok_def data_line_ok_def data_line_def)
  then have "scan_lines [] (sse_event pre ls @ rest) =
      pre @ map data_line ls @ scan_lines [] (CHR 0x0A # rest)"
    unfolding sse_event_def by (simp only: append_assoc append_Cons append_Nil scan_lines_concat)
  moreover have "sse_loop err [] (pre @ map data_line ls @ scan_lines [] (CHR 0x0A # rest)) =
      sse_loop err ls (scan_lines [] (CHR 0x0A # rest))"
    using assms(2,3) by (subst sse_loop_other) (simp_all add: sse_loop_data list_all_iff)
  ultimately show ?thesis
    using assms(1,4) by (simp add: decodeBody_def decodeSSE_def maxLine_def dropCR_def Let_def)
qed

theorem SSE_roundtrip_witness:
  "decodeBody ''text/event-stream'' (sse_event [''event: message''] [''{'', ''}''] @ ''junk'') True = Inr (''{'' @ [CHR 0x0A] @ ''}'')"
  by (subst SSE_roundtrip) (code_simp+)

end
