(* ===== verification/Schema.thy ===== *)
theory Schema
  imports Mcp Config
begin

text \<open>
  The edits the proxy makes to tool definitions and call parameters
  (\<^verbatim>\<open>internal/proxy/schema.go\<close>): the synthetic tenant argument is added to the schemas clients
  see and taken out of the calls backends get, and stateless requests carry the client's identity.
\<close>

definition tenantArg :: string where "tenantArg = ''tenant''"
definition listInstancesTool :: string where "listInstancesTool = ''list_instances''"

definition metaKeyProtocolVersion :: string where
  "metaKeyProtocolVersion = ''io.modelcontextprotocol/protocolVersion''"
definition metaKeyClientInfo :: string where
  "metaKeyClientInfo = ''io.modelcontextprotocol/clientInfo''"
definition metaKeyClientCapabilities :: string where
  "metaKeyClientCapabilities = ''io.modelcontextprotocol/clientCapabilities''"

definition cloneTool :: "rawTool \<Rightarrow> rawTool" where
  "cloneTool t = fold (\<lambda>(k, v) out. gomap_set k v out) t []"

definition tenantSchema :: "string list \<Rightarrow> bool \<Rightarrow> json" where
  "tenantSchema ids required =
     (let desc = (if required then ''Required. Target instance (tenant) for this call.''
                  else ''Optional. Target instance (tenant). Call list_instances to discover valid values.'')
      in Marshal_map ([(''type'', JStr ''string''), (''description'', JStr desc)]
           @ (if ids \<noteq> [] then [(''enum'', Marshal_strings ids)] else [])))"

text \<open>\<^verbatim>\<open>_ = json.Unmarshal(raw, &m)\<close> into a nil map when the member exists: \<open>None\<close> is a map that is still
  nil.\<close>

definition member_map :: "string \<Rightarrow> (string, json) gomap \<Rightarrow> (string, json) gomap option" where
  "member_map k m =
     (case map_of m k of
        None \<Rightarrow> None
      | Some raw \<Rightarrow> (case Unmarshal_map raw of Inl _ \<Rightarrow> None | Inr r \<Rightarrow> r))"

definition contains :: "string list \<Rightarrow> string \<Rightarrow> bool" where
  "contains ss v = list_ex (\<lambda>s. s = v) ss"

definition injectTenantArg :: "rawTool \<Rightarrow> json \<Rightarrow> bool \<Rightarrow> rawTool" where
  "injectTenantArg t schema required =
     (let sch = (case member_map ''inputSchema'' t of None \<Rightarrow> [(''type'', JStr ''object'')] | Some m \<Rightarrow> m);
          props = nilmap (member_map ''properties'' sch);
          props1 = gomap_set tenantArg schema props;
          sch1 = gomap_set ''properties'' (Marshal_map props1) sch;
          sch2 = (if required then
                    (let reqList = (case map_of sch1 ''required'' of None \<Rightarrow> [] | Some raw \<Rightarrow> Unmarshal_strings_partial raw);
                         reqList1 = (if \<not> contains reqList tenantArg then reqList @ [tenantArg] else reqList)
                     in gomap_set ''required'' (Marshal_strings reqList1) sch1)
                  else sch1)
      in gomap_set ''inputSchema'' (Marshal_map sch2) t)"

definition listInstancesToolDef :: rawTool where
  "listInstancesToolDef =
     [(''name'', JStr listInstancesTool),
      (''description'', JStr (''Lists the instances (tenants) you are authorized to access. Use the returned ids as the ''
          @ [CHR 0x27] @ ''tenant'' @ [CHR 0x27] @ '' argument.'')),
      (''inputSchema'', JObj [(''type'', JStr ''object''), (''properties'', JObj [])])]"

definition extractTenantArg :: "RawMessage \<Rightarrow> string" where
  "extractTenantArg args =
     (case args of
        None \<Rightarrow> []
      | Some v \<Rightarrow>
          (case Unmarshal_map v of
             Inl _ \<Rightarrow> []
           | Inr m \<Rightarrow>
               (case map_of (nilmap m) tenantArg of
                  None \<Rightarrow> []
                | Some raw \<Rightarrow> (case Unmarshal_string raw of Inl _ \<Rightarrow> [] | Inr s \<Rightarrow> s))))"

definition stripTenantArg :: "RawMessage \<Rightarrow> string + RawMessage" where
  "stripTenantArg params =
     (case params of
        None \<Rightarrow> Inl ''unexpected end of JSON input''
      | Some v \<Rightarrow>
          (case Unmarshal_map v of
             Inl e \<Rightarrow> Inl e
           | Inr p \<Rightarrow>
               (case map_of (nilmap p) ''arguments'' of
                  None \<Rightarrow> Inr params
                | Some rawArgs \<Rightarrow>
                    (case Unmarshal_map rawArgs of
                       Inl e \<Rightarrow> Inl e
                     | Inr args \<Rightarrow>
                         (case map_of (nilmap args) tenantArg of
                            None \<Rightarrow> Inr params
                          | Some _ \<Rightarrow>
                              Inr (Some (Marshal_map (gomap_set ''arguments''
                                (Marshal_map (gomap_delete tenantArg (nilmap args))) (nilmap p)))))))))"

definition statelessClientMeta :: "(string, json) gomap" where
  "statelessClientMeta =
     [(metaKeyProtocolVersion, JStr ProtocolVersionStateless),
      (metaKeyClientInfo, Marshal_map [(''name'', JStr ''mt-mcp-proxy''), (''version'', JStr ''0'')]),
      (metaKeyClientCapabilities, Marshal_map [])]"

text \<open>
  Decoding \<open>null\<close> sets the map to nil, and the assignment to a nil map that follows is a run-time
  panic: that is the result \<open>None\<close>.
\<close>

definition injectMeta :: "RawMessage \<Rightarrow> json option" where
  "injectMeta params =
     (let p = (case params of
                 None \<Rightarrow> Some []
               | Some v \<Rightarrow> (case Unmarshal_map v of Inl _ \<Rightarrow> Some [] | Inr m \<Rightarrow> m))
      in map_option (\<lambda>m. Marshal_map (gomap_set ''_meta'' (Marshal_map statelessClientMeta) m)) p)"

section \<open>The tenant argument in a schema\<close>

lemma Unmarshal_map_ok: "Unmarshal_map v = Inr (Some m) \<Longrightarrow> gomap_ok m"
  by (auto simp: Unmarshal_map_def split: json.splits)

lemma member_map_ok: "member_map k t = Some m \<Longrightarrow> gomap_ok m"
  by (auto simp: member_map_def dest: Unmarshal_map_ok split: option.splits sum.splits)

lemma member_map_set: "gomap_ok x \<Longrightarrow> member_map k (gomap_set k (Marshal_map x) m) = Some (sort_key fst x)"
  by (simp add: member_map_def Unmarshal_Marshal_map)

lemma cloneTool_same: "gomap_ok t \<Longrightarrow> cloneTool t = t"
  using obj_map_distinct [of t] by (simp add: cloneTool_def obj_map_def)

text \<open>The schema of a tool and its properties, as a client reads them.\<close>

definition schema_of :: "rawTool \<Rightarrow> (string, json) gomap" where
  "schema_of t = (case member_map ''inputSchema'' t of None \<Rightarrow> [(''type'', JStr ''object'')] | Some m \<Rightarrow> m)"

definition properties_of :: "rawTool \<Rightarrow> (string, json) gomap" where
  "properties_of t = nilmap (member_map ''properties'' (schema_of t))"

definition required_of :: "rawTool \<Rightarrow> string list" where
  "required_of t = (case map_of (schema_of t) ''required'' of None \<Rightarrow> [] | Some raw \<Rightarrow> Unmarshal_strings_partial raw)"

lemma schema_of_ok: "gomap_ok (schema_of t)"
  by (auto simp: schema_of_def dest: member_map_ok split: option.split)

lemma properties_of_ok: "gomap_ok (properties_of t)"
  by (auto simp: properties_of_def nilmap_def dest: member_map_ok split: option.split)

definition injected_schema :: "rawTool \<Rightarrow> json \<Rightarrow> bool \<Rightarrow> (string, json) gomap" where
  "injected_schema t schema required =
     (let sch1 = gomap_set ''properties'' (Marshal_map (gomap_set tenantArg schema (properties_of t))) (schema_of t) in
      if required
      then gomap_set ''required'' (Marshal_strings (if tenantArg \<in> set (required_of t) then required_of t
                                                    else required_of t @ [tenantArg])) sch1
      else sch1)"

lemma injectTenantArg_eq:
  "injectTenantArg t schema required = gomap_set ''inputSchema'' (Marshal_map (injected_schema t schema required)) t"
proof -
  have "contains ss v \<longleftrightarrow> v \<in> set ss" for ss v by (auto simp: contains_def list_ex_iff)
  then show ?thesis
    by (auto simp: injectTenantArg_def injected_schema_def properties_of_def schema_of_def required_of_def Let_def)
qed

lemma injected_schema_ok: "gomap_ok (injected_schema t schema required)"
  by (simp add: injected_schema_def Let_def schema_of_ok)

lemma schema_of_injected: "schema_of (injectTenantArg t schema required) = sort_key fst (injected_schema t schema required)"
  by (simp add: schema_of_def injectTenantArg_eq member_map_set injected_schema_ok)

lemma map_of_schema_injected:
  "map_of (schema_of (injectTenantArg t schema required)) = map_of (injected_schema t schema required)"
  by (simp add: schema_of_injected map_of_sort_key injected_schema_ok)

lemma properties_injected:
  "map_of (properties_of (injectTenantArg t schema required)) = (map_of (properties_of t))(tenantArg \<mapsto> schema)"
proof -
  have "map_of (injected_schema t schema required) ''properties'' =
      Some (Marshal_map (gomap_set tenantArg schema (properties_of t)))"
    by (simp add: injected_schema_def Let_def)
  then have "member_map ''properties'' (schema_of (injectTenantArg t schema required)) =
      Some (sort_key fst (gomap_set tenantArg schema (properties_of t)))"
    by (simp add: member_map_def map_of_schema_injected Unmarshal_Marshal_map properties_of_ok)
  then show ?thesis
    by (simp add: properties_of_def [of "injectTenantArg t schema required"] nilmap_def map_of_sort_key
        properties_of_ok update_conv')
qed

lemma Unmarshal_Marshal_strings [simp]: "Unmarshal_strings_partial (Marshal_strings ss) = ss"
  by (simp add: Unmarshal_strings_partial_def Marshal_strings_def comp_def)

lemma required_injected:
  "required_of (injectTenantArg t schema required) =
     (if required \<and> tenantArg \<notin> set (required_of t) then required_of t @ [tenantArg] else required_of t)"
  by (simp add: required_of_def [of "injectTenantArg t schema required"] map_of_schema_injected)
    (simp add: injected_schema_def Let_def required_of_def)

text \<open>C32. Injecting the tenant argument adds exactly that property to the tool's schema: all other
  properties, all other members of the schema and all other fields of the tool are kept, and the
  argument becomes required exactly when asked for, without being listed twice.\<close>

theorem injectTenantArg_exact:
  "map_of (properties_of (injectTenantArg t schema required)) = (map_of (properties_of t))(tenantArg \<mapsto> schema)
   \<and> required_of (injectTenantArg t schema required) =
       (if required \<and> tenantArg \<notin> set (required_of t) then required_of t @ [tenantArg] else required_of t)
   \<and> (k \<in> {''properties'', ''required''}
      \<or> map_of (schema_of (injectTenantArg t schema required)) k = map_of (schema_of t) k)
   \<and> (k = ''inputSchema'' \<or> map_of (injectTenantArg t schema required) k = map_of t k)"
  by (simp add: properties_injected required_injected map_of_schema_injected)
    (simp add: injected_schema_def injectTenantArg_eq Let_def update_conv')

section \<open>The tenant argument in a call\<close>

lemma map_of_nilmap_obj: "Unmarshal_map v = Inr m \<Longrightarrow> gomap_ok (nilmap m)"
  by (cases m) (auto simp: nilmap_def dest: Unmarshal_map_ok)

text \<open>The arguments of a call as a map: the nil map when there are none.\<close>

definition args_of :: "(string, json) gomap \<Rightarrow> (string, json) gomap" where
  "args_of p = nilmap (member_map ''arguments'' p)"

text \<open>C31. Stripping removes the tenant argument and nothing else: when it succeeds, every other member
  of the params, and every other argument, reads the same, and no tenant argument is left.\<close>

theorem stripTenantArg_exact:
  assumes "Unmarshal_map v = Inr p" and "stripTenantArg (Some v) = Inr out"
  shows "\<exists>v' p'. out = Some v' \<and> Unmarshal_map v' = Inr p'
    \<and> (k = ''arguments'' \<or> map_of (nilmap p') k = map_of (nilmap p) k)
    \<and> map_of (args_of (nilmap p')) = (map_of (args_of (nilmap p)))(tenantArg := None)"
proof (cases "map_of (args_of (nilmap p)) tenantArg")
  case None
  then have "out = Some v"
    using assms
    by (auto simp: stripTenantArg_def args_of_def member_map_def nilmap_def split: option.splits sum.splits)
  with None assms show ?thesis by (auto simp: fun_upd_idem)
next
  case (Some x)
  then obtain raw args where raw: "map_of (nilmap p) ''arguments'' = Some raw" and args: "Unmarshal_map raw = Inr (Some args)"
    and x: "map_of args tenantArg = Some x" and eq: "args_of (nilmap p) = args"
    by (auto simp: args_of_def member_map_def nilmap_def split: option.splits sum.splits)
  define q where "q = gomap_set ''arguments'' (Marshal_map (gomap_delete tenantArg args)) (nilmap p)"
  have ok: "gomap_ok args" "gomap_ok q"
    using args map_of_nilmap_obj [OF assms(1)] by (auto simp: q_def dest: Unmarshal_map_ok)
  have "out = Some (Marshal_map q)"
    using assms raw args x by (simp add: stripTenantArg_def nilmap_def q_def)
  moreover have "member_map ''arguments'' (sort_key fst q) = Some (sort_key fst (gomap_delete tenantArg args))"
    using ok by (simp add: member_map_def map_of_sort_key) (simp add: q_def Unmarshal_Marshal_map)
  then have "map_of (args_of (sort_key fst q)) = (map_of args)(tenantArg := None)"
    using ok by (simp add: args_of_def nilmap_def map_of_sort_key delete_conv')
  moreover have "k = ''arguments'' \<or> map_of (sort_key fst q) k = map_of (nilmap p) k"
    using ok by (simp add: map_of_sort_key q_def update_conv')
  ultimately show ?thesis
    using ok(2) eq by (simp add: Unmarshal_Marshal_map nilmap_def)
qed

theorem stripTenantArg_exact_witness:
  "\<exists>v'. stripTenantArg (Some (JObj [(''arguments'', JObj [(''tenant'', JStr ''a''), (''q'', JNum ''1'')])])) = Inr (Some v')
     \<and> v' = JObj [(''arguments'', JObj [(''q'', JNum ''1'')])]"
proof -
  define v where "v = JObj [(''arguments'', JObj [(''tenant'', JStr ''a''), (''q'', JNum ''1'')])]"
  have 1: "Unmarshal_map v = Inr (Some [(''arguments'', JObj [(''tenant'', JStr ''a''), (''q'', JNum ''1'')])])"
    unfolding v_def by code_simp
  have 2: "stripTenantArg (Some v) = Inr (Some (JObj [(''arguments'', JObj [(''q'', JNum ''1'')])]))"
    unfolding v_def by code_simp
  from stripTenantArg_exact [OF 1 2] 2 show ?thesis unfolding v_def by auto
qed

text \<open>Selecting and stripping disagree on the name of the arguments member: the selector matches it
  without regard to case, as Go decodes struct fields, while stripping looks for the exact key. A
  call that spells it \<open>Arguments\<close> selects a tenant and still sends the tenant argument on.\<close>

lemma folded_arguments_not_stripped:
  "case Unmarshal_toolCallParams (Some (JObj [(''name'', JStr ''f''), (''Arguments'', JObj [(''tenant'', JStr ''acme'')])])) of
     Inl _ \<Rightarrow> False
   | Inr p \<Rightarrow> extractTenantArg (tp_Arguments p) = ''acme''
       \<and> stripTenantArg (Some (JObj [(''name'', JStr ''f''), (''Arguments'', JObj [(''tenant'', JStr ''acme'')])]))
         = Inr (Some (JObj [(''name'', JStr ''f''), (''Arguments'', JObj [(''tenant'', JStr ''acme'')])]))"
  by code_simp

section \<open>The client identity in a stateless request\<close>

text \<open>Adding the client identity keeps every other member of the params and sets \<open>_meta\<close>; it fails,
  by a run-time panic, exactly when the params are the JSON value \<open>null\<close>.\<close>

lemma injectMeta_exact:
  "(injectMeta params = None \<longleftrightarrow> params = Some JNull)
   \<and> (case injectMeta params of
        None \<Rightarrow> True
      | Some out \<Rightarrow> (\<exists>m. Unmarshal_map out = Inr (Some m) \<and> map_of m ''_meta'' = Some (Marshal_map statelessClientMeta)
          \<and> (k = ''_meta'' \<or> map_of m k =
              (case params of Some (JObj kvs) \<Rightarrow> map_of (obj_map kvs) k | _ \<Rightarrow> None))))"
proof (cases "\<exists>kvs. params = Some (JObj kvs)")
  case True
  then obtain kvs where p: "params = Some (JObj kvs)" by blast
  define m where "m = gomap_set ''_meta'' (Marshal_map statelessClientMeta) (obj_map kvs)"
  have "injectMeta params = Some (Marshal_map m)" by (simp add: p injectMeta_def Unmarshal_map_def m_def)
  moreover have "gomap_ok m" by (simp add: m_def)
  ultimately show ?thesis
    by (simp add: p Unmarshal_Marshal_map map_of_sort_key del: map_of_eq_Some_iff) (simp add: m_def update_conv' del: map_of_eq_Some_iff)
next
  case False
  define m where "m = [(''_meta'', Marshal_map statelessClientMeta)]"
  show ?thesis
  proof (cases "params = Some JNull")
    case True
    then show ?thesis by (simp add: injectMeta_def Unmarshal_map_def)
  next
    case null: False
    with False have "injectMeta params = Some (Marshal_map m)"
      by (auto simp: injectMeta_def Unmarshal_map_def m_def split: option.split json.split)
    moreover have "gomap_ok m" by (simp add: m_def)
    moreover have "(case params of Some (JObj kvs) \<Rightarrow> map_of (obj_map kvs) k | _ \<Rightarrow> None) = None"
      using False by (auto split: option.split json.split)
    ultimately show ?thesis
      using null by (simp add: Unmarshal_Marshal_map map_of_sort_key) (simp add: m_def)
  qed
qed

end
