(* ===== verification/ParamHeaders.thy ===== *)
theory ParamHeaders
  imports Go_Float Mcp
begin

text \<open>
  The projection of annotated call arguments onto request headers
  (\<^verbatim>\<open>internal/proxy/paramheaders.go\<close>), with the encoding of arbitrary strings as header values.
\<close>

definition paramHeaderPrefix :: string where "paramHeaderPrefix = ''Mcp-Param-''"
definition paramHeaderBase64Prefix :: string where "paramHeaderBase64Prefix = ''=?base64?''"
definition paramHeaderBase64Suffix :: string where "paramHeaderBase64Suffix = ''?=''"

text \<open>
  \<^verbatim>\<open>toolInputSchema\<close>: the properties with their annotation; \<open>None\<close> is a type error anywhere in
  the schema. The order of the list is the order in which the loop ranges over the map.
\<close>

fun Unmarshal_properties :: "(string \<times> json) list \<Rightarrow> (string, RawMessage) gomap \<Rightarrow> (string, RawMessage) gomap option" where
  "Unmarshal_properties [] m = Some m"
| "Unmarshal_properties ((k, v) # kvs) m =
     (case v of
        JObj fs \<Rightarrow> Unmarshal_properties kvs (gomap_set k (raw_field ''x-mcp-header'' fs) m)
      | JNull \<Rightarrow> Unmarshal_properties kvs (gomap_set k None m)
      | _ \<Rightarrow> None)"

definition Unmarshal_toolInputSchema :: "json \<Rightarrow> (string, RawMessage) gomap option" where
  "Unmarshal_toolInputSchema v =
     (case v of
        JObj kvs \<Rightarrow>
          fold (\<lambda>x acc. case acc of
                          None \<Rightarrow> None
                        | Some m \<Rightarrow> (case x of
                                       JObj ps \<Rightarrow> Unmarshal_properties ps m
                                     | JNull \<Rightarrow> Some []
                                     | _ \<Rightarrow> None)) (field_members ''properties'' kvs) (Some [])
      | JNull \<Rightarrow> Some []
      | _ \<Rightarrow> None)"

definition requiresParamHeaderBase64 :: "string \<Rightarrow> bool" where
  "requiresParamHeaderBase64 s =
     (if s = [] then False
      else if HasPrefix s '' '' \<or> HasPrefix s [CHR 0x09] \<or> HasSuffix s '' '' \<or> HasSuffix s [CHR 0x09] then True
      else if list_ex (\<lambda>(c, _). c < 0x20 \<or> c > 0x7E) (runes s) then True
      else HasPrefix s paramHeaderBase64Prefix \<and> HasSuffix s paramHeaderBase64Suffix)"

definition encodeParamHeaderValue :: "json \<Rightarrow> string option" where
  "encodeParamHeaderValue raw =
     (let s = (case raw of
                 JStr v \<Rightarrow> Some v
               | JBool b \<Rightarrow> Some (FormatBool b)
               | JNum lit \<Rightarrow>
                   (case ParseFloat64 lit of
                      None \<Rightarrow> None
                    | Some v \<Rightarrow>
                        if f64_round (of_int (int64_of_f64 v)) \<noteq> Some v then None
                        else Some (FormatInt (int64_of_f64 v)))
               | _ \<Rightarrow> None)
      in map_option (\<lambda>s. if requiresParamHeaderBase64 s
                         then paramHeaderBase64Prefix @ base64_EncodeToString s @ paramHeaderBase64Suffix
                         else s) s)"

text \<open>The body of the loop over the annotated properties.\<close>

definition paramHeader :: "(string, json) gomap \<Rightarrow> string \<times> RawMessage \<Rightarrow> (string, string) gomap \<Rightarrow> (string, string) gomap" where
  "paramHeader args ps headers =
     (case snd ps of
        None \<Rightarrow> headers
      | Some xh \<Rightarrow>
          (case Unmarshal_string xh of
             Inl _ \<Rightarrow> headers
           | Inr headerName \<Rightarrow>
               if headerName = [] then headers
               else (case map_of args (fst ps) of
                       None \<Rightarrow> headers
                     | Some argRaw \<Rightarrow>
                         if argRaw = JNull then headers
                         else (case encodeParamHeaderValue argRaw of
                                 None \<Rightarrow> headers
                               | Some encoded \<Rightarrow> gomap_set (paramHeaderPrefix @ headerName) encoded headers))))"

definition paramHeadersForTool :: "rawTool \<Rightarrow> RawMessage \<Rightarrow> (string, string) gomap" where
  "paramHeadersForTool tool argsJSON =
     (case map_of tool ''inputSchema'' of
        None \<Rightarrow> []
      | Some rawSchema \<Rightarrow>
          (case Unmarshal_toolInputSchema rawSchema of
             None \<Rightarrow> []
           | Some props \<Rightarrow>
               (let args = (case argsJSON of
                              None \<Rightarrow> []
                            | Some v \<Rightarrow> (case Unmarshal_map v of Inl _ \<Rightarrow> [] | Inr m \<Rightarrow> nilmap m))
                in fold (paramHeader args) props [])))"

text \<open>A nil result and an empty one read the same.\<close>

definition mergeHeaders :: "(string, string) gomap list \<Rightarrow> (string, string) gomap" where
  "mergeHeaders maps = fold (\<lambda>m out. fold (\<lambda>(k, v). gomap_set k v) m out) maps []"

section \<open>Header values\<close>

text \<open>What a backend does with a header value, and what a value must be to pass through HTTP.\<close>

definition decodeParamHeaderValue :: "string \<Rightarrow> string" where
  "decodeParamHeaderValue h =
     (if HasPrefix h paramHeaderBase64Prefix \<and> HasSuffix h paramHeaderBase64Suffix
      then base64_DecodeString (take (length h - 11) (drop 9 h))
      else h)"

definition header_safe :: "string \<Rightarrow> bool" where
  "header_safe h \<longleftrightarrow>
     list_all (\<lambda>c. 0x20 \<le> byte c \<and> byte c \<le> (0x7E :: nat)) h \<and> (h \<noteq> [] \<longrightarrow> hd h \<noteq> CHR '' '' \<and> last h \<noteq> CHR '' '')"

lemma HasPrefix_single: "HasPrefix s [c] \<longleftrightarrow> s \<noteq> [] \<and> hd s = c"
  by (cases s) (auto simp: HasPrefix_def)

lemma HasSuffix_single: "HasSuffix s [c] \<longleftrightarrow> s \<noteq> [] \<and> last s = c"
  by (cases s rule: rev_cases) (auto simp: HasSuffix_def)

lemma base64_wrapped_safe:
  "header_safe (paramHeaderBase64Prefix @ base64_EncodeToString s @ paramHeaderBase64Suffix)"
proof -
  have "\<forall>c \<in> set (base64_EncodeToString s). 0x21 \<le> (byte c :: nat) \<and> byte c \<le> (0x7E::nat)"
    unfolding base64_EncodeToString_def by (rule b64_encode_printable) auto
  then show ?thesis
    by (auto simp: header_safe_def paramHeaderBase64Prefix_def paramHeaderBase64Suffix_def list_all_iff)
qed

lemma decode_wrapped:
  "decodeParamHeaderValue (paramHeaderBase64Prefix @ base64_EncodeToString s @ paramHeaderBase64Suffix) = s"
proof -
  let ?h = "paramHeaderBase64Prefix @ base64_EncodeToString s @ paramHeaderBase64Suffix"
  have "HasPrefix ?h paramHeaderBase64Prefix" by (rule HasPrefix_append)
  moreover have "HasSuffix ?h paramHeaderBase64Suffix"
    using HasSuffix_append [of "paramHeaderBase64Prefix @ base64_EncodeToString s"] by simp
  moreover have "take (length ?h - 11) (drop 9 ?h) = base64_EncodeToString s"
    by (simp add: paramHeaderBase64Prefix_def paramHeaderBase64Suffix_def)
  ultimately show ?thesis unfolding decodeParamHeaderValue_def by (simp only: base64_roundtrip if_True simp_thms)
qed

lemma plain_value:
  assumes "\<not> requiresParamHeaderBase64 s"
  shows "header_safe s \<and> decodeParamHeaderValue s = s"
proof (cases "s = []")
  case True
  then show ?thesis by (simp add: header_safe_def decodeParamHeaderValue_def HasPrefix_def paramHeaderBase64Prefix_def)
next
  case False
  with assms have r: "\<forall>x \<in> set (runes s). 0x20 \<le> fst x \<and> fst x \<le> 0x7E"
    and "\<not> (HasPrefix s paramHeaderBase64Prefix \<and> HasSuffix s paramHeaderBase64Suffix)"
    and "hd s \<noteq> CHR '' ''" "last s \<noteq> CHR '' ''"
    by (auto simp: requiresParamHeaderBase64_def list_ex_iff HasPrefix_single HasSuffix_single split: if_splits)
  moreover have "\<forall>c \<in> set s. 0x20 \<le> byte c \<and> byte c \<le> (0x7E::nat)"
    using r runes_ascii_iff [of "0x7E" s "0x20"] by simp
  ultimately show ?thesis by (auto simp: header_safe_def decodeParamHeaderValue_def list_all_iff)
qed

text \<open>C34. Every string argument has a header value; it is printable ASCII without blanks at either end,
  so it survives an HTTP header, and a backend that undoes the base64 wrapper gets exactly the
  argument back. In particular different arguments never collide.\<close>

theorem string_value_roundtrip:
  "\<exists>h. encodeParamHeaderValue (JStr s) = Some h \<and> header_safe h \<and> decodeParamHeaderValue h = s"
  using base64_wrapped_safe [of s] decode_wrapped [of s] plain_value [of s]
  by (auto simp: encodeParamHeaderValue_def)

section \<open>Numbers\<close>

lemma literal_digits:
  assumes "list_all is_digit s" "s \<noteq> []"
  shows "literal_value s = of_nat (dec_val s)" and "literal_value (CHR ''-'' # s) = - of_nat (dec_val s)"
proof -
  have h: "is_digit (hd s)" using assms by (cases s) auto
  have nominus: "\<not> HasPrefix s ''-''"
  proof
    assume "HasPrefix s ''-''"
    then have "hd s = CHR ''-''" by (simp add: HasPrefix_single)
    with h show False by (simp add: is_digit_def)
  qed
  have tw: "takeWhile is_digit s = s" and dw: "dropWhile is_digit s = []"
    using assms by (simp_all add: takeWhile_eq_all_conv dropWhile_eq_Nil_conv list_all_iff)
  have e: "HasPrefix [] ''.'' = False" "HasPrefix (CHR ''-'' # s) ''-'' = True" by (simp_all add: HasPrefix_def)
  show "literal_value s = of_nat (dec_val s)" "literal_value (CHR ''-'' # s) = - of_nat (dec_val s)"
    by (simp_all only: literal_value_def Let_def nominus tw dw e if_True if_False list.sel append_Nil2 list.size) simp_all
qed

lemma literal_FormatInt: "literal_value (FormatInt n) = of_int n"
proof (cases "n < 0")
  case True
  then show ?thesis
    using literal_digits(2) [of "FormatNat (nat (- n))"] FormatNat_digits [of "nat (- n)"]
    by (simp add: FormatInt_def)
next
  case False
  then show ?thesis
    using literal_digits(1) [of "FormatNat (nat n)"] FormatNat_digits [of "nat n"]
    by (simp add: FormatInt_def)
qed

lemma digit_printable: "is_digit c \<Longrightarrow> 0x20 < (byte c :: nat) \<and> byte c < (0x3A::nat)"
  by (simp add: is_digit_def)

lemma FormatInt_plain: "\<not> requiresParamHeaderBase64 (FormatInt n)"
proof -
  have d: "list_all is_digit (FormatNat m) \<and> FormatNat m \<noteq> []" for m by (rule FormatNat_digits)
  have set: "\<forall>c \<in> set (FormatInt n). 0x21 \<le> byte c \<and> byte c \<le> (0x39 :: nat)"
    using d [of "nat n"] d [of "nat (- n)"] by (auto simp: FormatInt_def list_all_iff is_digit_def)
  have ne: "FormatInt n \<noteq> []" using d by (simp add: FormatInt_def)
  have hd_in: "hd (FormatInt n) \<in> set (FormatInt n)" "last (FormatInt n) \<in> set (FormatInt n)" using ne by simp_all
  have ends: "hd (FormatInt n) \<noteq> CHR '' ''" "hd (FormatInt n) \<noteq> CHR 0x09"
    "last (FormatInt n) \<noteq> CHR '' ''" "last (FormatInt n) \<noteq> CHR 0x09"
    using set hd_in by force+
  have eq: "CHR ''='' \<notin> set (FormatInt n)" using set by force
  have "\<not> HasPrefix (FormatInt n) paramHeaderBase64Prefix"
    using eq by (auto simp: HasPrefix_iff paramHeaderBase64Prefix_def)
  moreover have "\<forall>x \<in> set (runes (FormatInt n)). 0x21 \<le> fst x \<and> fst x \<le> 0x39"
    using set runes_ascii_iff [of "0x39" "FormatInt n" "0x21"] by simp
  then have "\<not> list_ex (\<lambda>(c, _). c < 0x20 \<or> c > 0x7E) (runes (FormatInt n))"
    by (fastforce simp: list_ex_iff)
  ultimately show ?thesis
    using ends by (simp add: requiresParamHeaderBase64_def HasPrefix_single HasSuffix_single)
qed

text \<open>C35. An integer argument of absolute value at most \<open>2^53\<close> is projected as its decimal digits, the
  same number the body carries.\<close>

theorem integer_value_exact:
  assumes "\<bar>n\<bar> \<le> 2 ^ 53"
  shows "encodeParamHeaderValue (JNum (FormatInt n)) = Some (FormatInt n)"
proof -
  have "\<bar>n\<bar> < 2 ^ 63" using assms by simp
  then have "int64_of_f64 (of_int n) = n" by (intro int64_of_f64_int) auto
  with assms show ?thesis
    by (simp add: encodeParamHeaderValue_def ParseFloat64_def literal_FormatInt f64_round_int FormatInt_plain)
qed

theorem integer_value_exact_witness:
  "encodeParamHeaderValue (JNum (FormatInt 9007199254740992)) = Some (FormatInt 9007199254740992)"
  by (rule integer_value_exact) simp

text \<open>Beyond \<open>2^53\<close> the projection goes through a double and the header no longer carries the number
  that is in the body.\<close>

lemma large_integer_rounded:
  "encodeParamHeaderValue (JNum ''9007199254740993'') = Some ''9007199254740992''"
proof -
  have "literal_value ''9007199254740993'' = 9007199254740993"
    by (simp add: literal_value_def Let_def HasPrefix_def is_digit_def dec_val_def digit_val_def)
  moreover have "f64_exp 9007199254740993 1 = 1" by code_simp
  moreover have "round_half_even 9007199254740993 2 = 4503599627370496" by code_simp
  moreover have "scale2 4503599627370496 1 = 9007199254740992" by (simp add: scale2_def)
  ultimately have "ParseFloat64 ''9007199254740993'' = Some (of_int 9007199254740992)"
    by (simp add: ParseFloat64_def f64_round_def Let_def)
  moreover have "int64_of_f64 (of_int 9007199254740992) = 9007199254740992" by (rule int64_of_f64_int) simp_all
  moreover have "f64_round (of_int 9007199254740992) = Some (of_int 9007199254740992)" by (rule f64_round_int) simp
  moreover have "FormatInt 9007199254740992 = ''9007199254740992''" by code_simp
  moreover have "\<not> requiresParamHeaderBase64 ''9007199254740992''"
    using FormatInt_plain [of 9007199254740992] calculation(4) by simp
  ultimately show ?thesis by (simp add: encodeParamHeaderValue_def)
qed

section \<open>Which headers are sent\<close>

text \<open>The header a property contributes, and those of a whole schema in iteration order.\<close>

definition param_pair :: "(string, json) gomap \<Rightarrow> string \<times> RawMessage \<Rightarrow> (string \<times> string) list" where
  "param_pair args ps =
     (case ps of
        (prop, Some (JStr name)) \<Rightarrow>
          (if name = [] then []
           else case map_of args prop of
                  None \<Rightarrow> []
                | Some arg \<Rightarrow>
                    if arg = JNull then []
                    else (case encodeParamHeaderValue arg of
                            None \<Rightarrow> []
                          | Some v \<Rightarrow> [(paramHeaderPrefix @ name, v)]))
      | _ \<Rightarrow> [])"

definition schema_annotations :: "rawTool \<Rightarrow> (string, RawMessage) gomap" where
  "schema_annotations tool =
     (case map_of tool ''inputSchema'' of
        None \<Rightarrow> []
      | Some raw \<Rightarrow> (case Unmarshal_toolInputSchema raw of None \<Rightarrow> [] | Some props \<Rightarrow> props))"

definition call_args :: "RawMessage \<Rightarrow> (string, json) gomap" where
  "call_args argsJSON =
     (case argsJSON of None \<Rightarrow> [] | Some v \<Rightarrow> (case Unmarshal_map v of Inl _ \<Rightarrow> [] | Inr m \<Rightarrow> nilmap m))"

definition param_pairs :: "rawTool \<Rightarrow> RawMessage \<Rightarrow> (string \<times> string) list" where
  "param_pairs tool argsJSON = concat (map (param_pair (call_args argsJSON)) (schema_annotations tool))"

lemma paramHeader_pair: "paramHeader args ps hs = fold (\<lambda>(k, v) m. gomap_set k v m) (param_pair args ps) hs"
  by (cases ps) (auto simp: paramHeader_def param_pair_def Unmarshal_string_def split: option.split json.split)

lemma paramHeader_fold:
  "fold (paramHeader args) props hs = fold (\<lambda>(k, v) m. gomap_set k v m) (concat (map (param_pair args) props)) hs"
  by (induction props arbitrary: hs) (simp_all add: paramHeader_pair)

lemma paramHeadersForTool_eq:
  "paramHeadersForTool tool argsJSON = fold (\<lambda>(k, v) m. gomap_set k v m) (param_pairs tool argsJSON) []"
  by (simp add: paramHeadersForTool_def schema_annotations_def param_pairs_def call_args_def paramHeader_fold
      Let_def split: option.split)

lemma map_of_paramHeaders: "map_of (paramHeadersForTool tool argsJSON) = map_of (rev (param_pairs tool argsJSON))"
  by (simp add: paramHeadersForTool_eq map_of_obj_map_aux)

lemma paramHeaders_ok [simp]: "gomap_ok (paramHeadersForTool tool argsJSON)"
  by (simp add: paramHeadersForTool_eq gomap_ok_obj_map_aux)

lemma param_pair_key:
  assumes "(k, v) \<in> set (param_pair args ps)"
  shows "HasPrefix k paramHeaderPrefix"
proof -
  obtain pn x where ps: "ps = (pn, x)" by (cases ps)
  with assms obtain j where x: "x = Some j" by (cases x) (simp_all add: param_pair_def)
  with assms ps obtain name where "j = JStr name" by (cases j) (simp_all add: param_pair_def)
  with assms ps x show ?thesis by (auto simp: param_pair_def split: option.splits if_splits)
qed

lemma paramHeaders_key: "(k, v) \<in> set (paramHeadersForTool tool argsJSON) \<Longrightarrow> HasPrefix k paramHeaderPrefix"
proof -
  assume "(k, v) \<in> set (paramHeadersForTool tool argsJSON)"
  then have "map_of (rev (param_pairs tool argsJSON)) k = Some v"
    by (metis map_of_paramHeaders map_of_eq_Some_iff paramHeaders_ok)
  then have "(k, v) \<in> set (param_pairs tool argsJSON)" using map_of_SomeD by fastforce
  then show ?thesis by (auto simp: param_pairs_def dest: param_pair_key)
qed

text \<open>Whatever name a schema asks for, the canonical form of the header keeps the prefix.\<close>

lemma canonical_param_key: "HasPrefix k paramHeaderPrefix \<Longrightarrow> HasPrefix (CanonicalHeaderKey k) paramHeaderPrefix"
proof -
  assume "HasPrefix k paramHeaderPrefix"
  then obtain x where k: "k = paramHeaderPrefix @ x" by (auto simp: HasPrefix_iff)
  have "canon_bytes True (paramHeaderPrefix @ x) = paramHeaderPrefix @ canon_bytes True x"
    by (simp add: paramHeaderPrefix_def ascii_upper_def ascii_lower_def Let_def)
  then show ?thesis by (simp add: k CanonicalHeaderKey_def)
qed

text \<open>C33. A call carries exactly one header for each property that the tool's schema annotates with a
  non-empty name and that has an encodable, non-null argument, with that argument's encoding (when
  two properties ask for the same name, one of them); the name of every such header begins with
  \<open>Mcp-Param-\<close>, so a schema sent by a backend can name no other header.\<close>

theorem param_headers_exact:
  "(map_of (paramHeadersForTool tool argsJSON) k = Some v \<longrightarrow>
      (k, v) \<in> set (param_pairs tool argsJSON) \<and> HasPrefix (CanonicalHeaderKey k) paramHeaderPrefix)
   \<and> fst ` set (paramHeadersForTool tool argsJSON) = fst ` set (param_pairs tool argsJSON)
   \<and> (gomap_ok (param_pairs tool argsJSON) \<longrightarrow> paramHeadersForTool tool argsJSON = param_pairs tool argsJSON)"
proof (intro conjI impI)
  assume kv: "map_of (paramHeadersForTool tool argsJSON) k = Some v"
  then show "(k, v) \<in> set (param_pairs tool argsJSON)" by (auto simp: map_of_paramHeaders dest: map_of_SomeD)
  from kv show "HasPrefix (CanonicalHeaderKey k) paramHeaderPrefix"
    by (auto intro: canonical_param_key paramHeaders_key dest: map_of_SomeD)
next
  have "dom (map_of (paramHeadersForTool tool argsJSON)) = dom (map_of (rev (param_pairs tool argsJSON)))"
    by (simp add: map_of_paramHeaders)
  then show "fst ` set (paramHeadersForTool tool argsJSON) = fst ` set (param_pairs tool argsJSON)"
    by (simp add: dom_map_of_conv_image_fst)
next
  assume "gomap_ok (param_pairs tool argsJSON)"
  then show "paramHeadersForTool tool argsJSON = param_pairs tool argsJSON"
    unfolding paramHeadersForTool_eq by (subst obj_map_distinct_aux) simp_all
qed

definition example_tool :: rawTool where
  "example_tool = [(''name'', JStr ''get_repo''), (''inputSchema'', JObj [(''properties'', JObj
     [(''owner'', JObj [(''type'', JStr ''string''), (''x-mcp-header'', JStr ''Owner'')]),
      (''limit'', JObj [(''type'', JStr ''integer'')])])])]"

definition example_args :: RawMessage where
  "example_args = Some (JObj [(''owner'', JStr ''octo''), (''limit'', JNum ''5'')])"

theorem param_headers_exact_witness:
  "paramHeadersForTool example_tool example_args = [(''Mcp-Param-Owner'', ''octo'')]"
proof -
  have ann: "schema_annotations example_tool = [(''owner'', Some (JStr ''Owner'')), (''limit'', None)]" by code_simp
  have args: "call_args example_args = [(''owner'', JStr ''octo''), (''limit'', JNum ''5'')]" by code_simp
  have "\<not> requiresParamHeaderBase64 ''octo''" by code_simp
  then have "param_pairs example_tool example_args = [(''Mcp-Param-Owner'', ''octo'')]"
    by (simp add: param_pairs_def ann args param_pair_def encodeParamHeaderValue_def paramHeaderPrefix_def)
  note pairs = this
  show ?thesis
    by (rule param_headers_exact [THEN conjunct2, THEN conjunct2, THEN mp, of example_tool example_args,
        unfolded pairs]) simp
qed

text \<open>A property whose schema is a boolean, as JSON Schema allows, cannot be decoded into a struct, and the error
  drops the headers of all the properties.\<close>

lemma boolean_property_drops_headers:
  "paramHeadersForTool [(''inputSchema'', JObj [(''properties'', JObj
     [(''owner'', JObj [(''x-mcp-header'', JStr ''Owner'')]), (''rest'', JBool True)])])] args = []"
proof -
  have "Unmarshal_toolInputSchema (JObj [(''properties'', JObj
     [(''owner'', JObj [(''x-mcp-header'', JStr ''Owner'')]), (''rest'', JBool True)])]) = None"
    by code_simp
  then show ?thesis by (simp add: paramHeadersForTool_def)
qed

section \<open>Merging\<close>

lemma map_of_merge_fold: "map_of (fold (\<lambda>(k, v). gomap_set k v) m out) = map_of out ++ map_of (rev m)"
  using map_of_obj_map_aux [of m out] by (simp add: case_prod_beta)

lemma map_of_rev_distinct: "gomap_ok m \<Longrightarrow> map_of (rev m) = map_of m"
  by (rule map_of_perm) (simp_all add: rev_map [symmetric])

lemma map_of_mergeHeaders: "gomap_ok a \<Longrightarrow> gomap_ok b \<Longrightarrow> map_of (mergeHeaders [a, b]) = map_of a ++ map_of b"
  by (simp add: mergeHeaders_def map_of_merge_fold map_of_rev_distinct)

lemma gomap_ok_mergeHeaders [simp]: "gomap_ok (mergeHeaders [a, b])"
  using gomap_ok_obj_map_aux [of "[]" a] gomap_ok_obj_map_aux [of "fold (\<lambda>(k, v) m. gomap_set k v m) a []" b]
  by (simp add: mergeHeaders_def case_prod_beta)

lemma mergeHeaders_keys: "fst ` set (mergeHeaders [a, b]) = fst ` set a \<union> fst ` set b"
proof -
  have "dom (map_of (mergeHeaders [a, b])) = dom (map_of (rev a)) \<union> dom (map_of (rev b))"
    by (auto simp: mergeHeaders_def map_of_merge_fold)
  then show ?thesis by (simp add: dom_map_of_conv_image_fst)
qed

end
