(* ===== verification/Client.thy ===== *)
theory Client
  imports Schema ParamHeaders Registry
begin

text \<open>
  The MCP client the proxy uses toward its backends (\<^verbatim>\<open>internal/proxy/client.go\<close>): one HTTP request
  per call, built from nothing but the backend's configuration, the tenant's credential and headers,
  and the JSON-RPC payload. Tracing is not modelled except for the headers the propagator adds.
\<close>

record backendClient =
  backend :: Backend
  stateless :: bool

definition newBackendClient :: "Backend \<Rightarrow> backendClient" where
  "newBackendClient b = \<lparr>backend = b, stateless = Stateless b\<rparr>"

definition applyAuth :: "backendClient \<Rightarrow> breq \<Rightarrow> string \<Rightarrow> (string, string) gomap \<Rightarrow> breq" where
  "applyAuth c req credential extra =
     (let h0 = bheaders req;
          h1 = (if credential \<noteq> [] then
                  (let value = (if b_CredentialScheme (backend c) \<noteq> []
                                then b_CredentialScheme (backend c) @ '' '' @ credential else credential)
                   in Header_Set (b_CredentialHeader (backend c)) value h0)
                else h0);
          h2 = Header_SetAll (b_Headers (backend c)) h1;
          h3 = Header_SetAll extra h2
      in req\<lparr>bheaders := h3\<rparr>)"

text \<open>The headers of a request, in the order in which \<^verbatim>\<open>post\<close> sets them.\<close>

definition setRequestHeaders ::
    "env \<Rightarrow> backendClient \<Rightarrow> string \<Rightarrow> string \<Rightarrow> (string, string) gomap \<Rightarrow> string \<Rightarrow> string \<Rightarrow> io \<Rightarrow> breq \<Rightarrow> breq" where
  "setRequestHeaders e c sessionID credential extra mcpMethod mcpName w req0 =
     (let h1 = Header_Set ''Content-Type'' ''application/json'' (bheaders req0);
          h2 = Header_Set ''Accept'' ''application/json, text/event-stream'' h1;
          h3 = (if stateless c then
                  (let p = Header_Set mcpProtocolVersionHeader ProtocolVersionStateless h2;
                       q = (if mcpMethod \<noteq> [] then Header_Set mcpMethodHeader mcpMethod p else p)
                   in if mcpName \<noteq> [] then Header_Set mcpNameHeader mcpName q else q)
                else if sessionID \<noteq> [] then Header_Set mcpSessionHeader sessionID h2
                else h2);
          req1 = applyAuth c (req0\<lparr>bheaders := h3\<rparr>) credential extra
      in req1\<lparr>bheaders := Header_SetAll (propagate e (sent w)) (bheaders req1)\<rparr>)"

definition post ::
    "env \<Rightarrow> backendClient \<Rightarrow> json \<Rightarrow> string \<Rightarrow> string \<Rightarrow> (string, string) gomap \<Rightarrow> string \<Rightarrow> string \<Rightarrow> io
     \<Rightarrow> (string + string \<times> string) \<times> io" where
  "post e c payload sessionID credential extra mcpMethod mcpName w =
     (case NewRequest ''POST'' (url_String (b_URL (backend c))) (Some payload) of
        Inl err \<Rightarrow> (Inl err, w)
      | Inr req0 \<Rightarrow>
          (let req = setRequestHeaders e c sessionID credential extra mcpMethod mcpName w req0
           in case http_Do e req w of
                (Inl err, w1) \<Rightarrow> (Inl err, w1)
              | (Inr resp, w1) \<Rightarrow>
                  (if bstatus resp < 200 \<or> 300 \<le> bstatus resp then (Inl ''backend returned status'', w1)
                   else (case decodeBody (Header_Get (brheaders resp) ''Content-Type'') (bbody resp) (bread_err resp) of
                           Inl err \<Rightarrow> (Inl (''decode response: '' @ err), w1)
                         | Inr decoded \<Rightarrow> (Inr (decoded, Header_Get (brheaders resp) mcpSessionHeader), w1)))))"

text \<open>\<^verbatim>\<open>{"protocolVersion":"2025-03-26","capabilities":{},"clientInfo":{"name":"mt-mcp-proxy","version":"0"}}\<close>\<close>

definition defaultInitParams :: json where
  "defaultInitParams =
     JObj [(''protocolVersion'', JStr ''2025-03-26''), (''capabilities'', JObj []),
           (''clientInfo'', JObj [(''name'', JStr ''mt-mcp-proxy''), (''version'', JStr ''0'')])]"

text \<open>\<^verbatim>\<open>struct { Result, Error json.RawMessage }\<close>; \<open>None\<close> is a decoding error.\<close>

definition Unmarshal_rpc :: "string \<Rightarrow> (RawMessage \<times> RawMessage) option" where
  "Unmarshal_rpc body =
     (case json_parse body of
        Some (JObj kvs) \<Rightarrow> Some (raw_field ''result'' kvs, raw_field ''error'' kvs)
      | Some JNull \<Rightarrow> Some (None, None)
      | _ \<Rightarrow> None)"

definition initialize ::
    "env \<Rightarrow> backendClient \<Rightarrow> json \<Rightarrow> string \<Rightarrow> io \<Rightarrow> (string + string \<times> RawMessage) \<times> io" where
  "initialize e c initParams credential w =
     (let payload = Marshal_request \<lparr>rq_JSONRPC = ''2.0'', rq_Method = ''initialize'', rq_Params = Some initParams,
                      rq_ID = Some (JNum ''1'')\<rparr>
      in case post e c payload [] credential [] ''initialize'' [] w of
           (Inl err, w1) \<Rightarrow> (Inl err, w1)
         | (Inr (body, sid), w1) \<Rightarrow>
             (case Unmarshal_rpc body of
                None \<Rightarrow> (Inl ''bad initialize response'', w1)
              | Some (result, err) \<Rightarrow>
                  if err \<noteq> None then (Inl ''initialize error'', w1) else (Inr (sid, result), w1)))"

definition notifyInitialized :: "env \<Rightarrow> backendClient \<Rightarrow> string \<Rightarrow> string \<Rightarrow> io \<Rightarrow> io" where
  "notifyInitialized e c sessionID credential w =
     (let payload = Marshal_request \<lparr>rq_JSONRPC = ''2.0'', rq_Method = ''notifications/initialized'',
                      rq_Params = None, rq_ID = None\<rparr>
      in snd (post e c payload sessionID credential [] ''notifications/initialized'' [] w))"

text \<open>\<^verbatim>\<open>struct { Result toolsListResult; Error json.RawMessage }\<close>.\<close>

definition Unmarshal_tools_rpc :: "string \<Rightarrow> (rawTool list option \<times> RawMessage) option" where
  "Unmarshal_tools_rpc body =
     (case json_parse body of
        Some (JObj kvs) \<Rightarrow>
          map_option (\<lambda>ts. (ts, raw_field ''error'' kvs))
            (fold (\<lambda>x acc. case acc of None \<Rightarrow> None | Some ts \<Rightarrow> Unmarshal_toolsListResult ts x)
               (field_members ''result'' kvs) (Some None))
      | Some JNull \<Rightarrow> Some (None, None)
      | _ \<Rightarrow> None)"

text \<open>The result is a slice that may be nil (\<open>Inr None\<close>), when the response lists no tools member.
  With empty params \<open>injectMeta\<close> always succeeds.\<close>

definition listTools ::
    "env \<Rightarrow> backendClient \<Rightarrow> string \<Rightarrow> string \<Rightarrow> (string, string) gomap \<Rightarrow> io \<Rightarrow> (string + rawTool list option) \<times> io" where
  "listTools e c sessionID credential headers w =
     (let payload = Marshal_request \<lparr>rq_JSONRPC = ''2.0'', rq_Method = ''tools/list'',
                      rq_Params = (if stateless c then injectMeta None else None), rq_ID = Some (JNum ''2'')\<rparr>
      in case post e c payload sessionID credential headers ''tools/list'' [] w of
           (Inl err, w1) \<Rightarrow> (Inl err, w1)
         | (Inr (body, _), w1) \<Rightarrow>
             (case Unmarshal_tools_rpc body of
                None \<Rightarrow> (Inl ''bad tools/list response'', w1)
              | Some (tools, err) \<Rightarrow>
                  if err \<noteq> None then (Inl ''tools/list error'', w1) else (Inr tools, w1)))"

text \<open>The outer \<open>None\<close> is the run-time panic of \<open>injectMeta\<close>.\<close>

definition callTool ::
    "env \<Rightarrow> backendClient \<Rightarrow> string \<Rightarrow> string \<Rightarrow> json \<Rightarrow> (string, string) gomap \<Rightarrow> string \<Rightarrow> io
     \<Rightarrow> (string + string) option \<times> io" where
  "callTool e c sessionID credential reqBytes tenantHeaders toolName w =
     (case (if stateless c then
              (case Unmarshal_request reqBytes of
                 Inl err \<Rightarrow> Some (Inl (''bad tools/call request: '' @ err))
               | Inr req \<Rightarrow>
                   map_option (\<lambda>p. Inr (Marshal_request (req\<lparr>rq_Params := Some p\<rparr>))) (injectMeta (rq_Params req)))
            else Some (Inr reqBytes)) of
        None \<Rightarrow> (None, w)
      | Some (Inl err) \<Rightarrow> (Some (Inl err), w)
      | Some (Inr bytes) \<Rightarrow>
          (case post e c bytes sessionID credential tenantHeaders ''tools/call'' toolName w of
             (Inl err, w1) \<Rightarrow> (Some (Inl err), w1)
           | (Inr (body, _), w1) \<Rightarrow> (Some (Inr body), w1)))"

section \<open>The request that is sent\<close>

definition protocol_headers :: "backendClient \<Rightarrow> string \<Rightarrow> string \<Rightarrow> string \<Rightarrow> (string \<times> string) list" where
  "protocol_headers c sid meth name =
     [(''Content-Type'', ''application/json''), (''Accept'', ''application/json, text/event-stream'')]
     @ (if stateless c
        then [(mcpProtocolVersionHeader, ProtocolVersionStateless)]
          @ (if meth \<noteq> [] then [(mcpMethodHeader, meth)] else [])
          @ (if name \<noteq> [] then [(mcpNameHeader, name)] else [])
        else if sid \<noteq> [] then [(mcpSessionHeader, sid)] else [])"

definition credential_headers :: "Backend \<Rightarrow> string \<Rightarrow> (string \<times> string) list" where
  "credential_headers b cred =
     (if cred \<noteq> [] then [(b_CredentialHeader b, if b_CredentialScheme b \<noteq> [] then b_CredentialScheme b @ '' '' @ cred else cred)]
      else [])"

definition client_headers :: "env \<Rightarrow> backendClient \<Rightarrow> string \<Rightarrow> string \<Rightarrow> (string, string) gomap \<Rightarrow> string \<Rightarrow> string \<Rightarrow> io \<Rightarrow> hdrs" where
  "client_headers e c sid cred extra meth name w =
     Header_SetAll (protocol_headers c sid meth name @ credential_headers (backend c) cred
       @ b_Headers (backend c) @ extra @ propagate e (sent w)) []"

definition client_request ::
    "env \<Rightarrow> backendClient \<Rightarrow> json \<Rightarrow> string \<Rightarrow> string \<Rightarrow> (string, string) gomap \<Rightarrow> string \<Rightarrow> string \<Rightarrow> io \<Rightarrow> breq" where
  "client_request e c payload sid cred extra meth name w =
     \<lparr>bmethod = ''POST'', burl = url_String (b_URL (backend c)),
      bheaders = client_headers e c sid cred extra meth name w, bpayload = Some payload\<rparr>"

definition url_ok :: "Backend \<Rightarrow> bool" where
  "url_ok b \<longleftrightarrow> (\<exists>u. url_parse (url_String (b_URL b)) = Inr u)"

text \<open>What an answer means to the client.\<close>

definition post_answer :: "string + bresp \<Rightarrow> string + string \<times> string" where
  "post_answer a =
     (case a of
        Inl err \<Rightarrow> Inl err
      | Inr resp \<Rightarrow>
          if bstatus resp < 200 \<or> 300 \<le> bstatus resp then Inl ''backend returned status''
          else (case decodeBody (Header_Get (brheaders resp) ''Content-Type'') (bbody resp) (bread_err resp) of
                  Inl err \<Rightarrow> Inl (''decode response: '' @ err)
                | Inr decoded \<Rightarrow> Inr (decoded, Header_Get (brheaders resp) mcpSessionHeader)))"

lemma applyAuth_eq:
  "applyAuth c req cred extra =
     req\<lparr>bheaders := Header_SetAll (credential_headers (backend c) cred @ b_Headers (backend c) @ extra) (bheaders req)\<rparr>"
  by (simp add: applyAuth_def credential_headers_def Header_SetAll_append Let_def)

text \<open>Configured headers that differ only in the case of their names are one header, and the iteration order of
  the map decides which of the values is sent.\<close>

lemma case_variants_depend_on_order:
  assumes "CanonicalHeaderKey k = CanonicalHeaderKey k'" and "k \<noteq> k'"
  shows "gomap_ok [(k, v), (k', v')]" and "map_of (Header_SetAll [(k, v), (k', v')] h) (CanonicalHeaderKey k) = Some v'"
    and "map_of (Header_SetAll [(k', v'), (k, v)] h) (CanonicalHeaderKey k) = Some v"
  using assms by (simp_all add: map_of_Header_Set)

lemma case_variants_depend_on_order_example:
  "map_of (Header_SetAll [(''x-mode'', ''a''), (''X-Mode'', ''b'')] []) ''X-Mode'' = Some ''b''"
  "map_of (Header_SetAll [(''X-Mode'', ''b''), (''x-mode'', ''a'')] []) ''X-Mode'' = Some ''a''"
proof -
  have c: "CanonicalHeaderKey ''x-mode'' = ''X-Mode''" "CanonicalHeaderKey ''X-Mode'' = ''X-Mode''" by code_simp+
  show "map_of (Header_SetAll [(''x-mode'', ''a''), (''X-Mode'', ''b'')] []) ''X-Mode'' = Some ''b''"
    and "map_of (Header_SetAll [(''X-Mode'', ''b''), (''x-mode'', ''a'')] []) ''X-Mode'' = Some ''a''"
    using case_variants_depend_on_order [of "''x-mode''" "''X-Mode''"] c by simp_all
qed

lemma setRequestHeaders_eq:
  "setRequestHeaders e c sid cred extra meth name w \<lparr>bmethod = ''POST'', burl = url_String (b_URL (backend c)), bheaders = [], bpayload = Some payload\<rparr>
   = client_request e c payload sid cred extra meth name w"
  by (simp add: setRequestHeaders_def client_request_def client_headers_def applyAuth_eq protocol_headers_def
      Header_SetAll_append Let_def del: append_Cons append_Nil append.simps)

lemma post_eq:
  "post e c payload sid cred extra meth name w =
     (case url_parse (url_String (b_URL (backend c))) of
        Inl err \<Rightarrow> (Inl err, w)
      | Inr _ \<Rightarrow>
          (let q = client_request e c payload sid cred extra meth name w
           in (post_answer (transport e (sent w) q), w\<lparr>sent := sent w @ [q]\<rparr>)))"
proof (cases "url_parse (url_String (b_URL (backend c)))")
  case (Inl err)
  then show ?thesis by (simp add: post_def NewRequest_def)
next
  case (Inr u)
  let ?q = "client_request e c payload sid cred extra meth name w"
  have "post e c payload sid cred extra meth name w =
      (case http_Do e ?q w of
         (Inl err, w1) \<Rightarrow> (Inl err, w1)
       | (Inr resp, w1) \<Rightarrow> (post_answer (Inr resp), w1))"
    unfolding post_def NewRequest_def Inr sum.case setRequestHeaders_eq Let_def post_answer_def
    by (auto split: prod.split sum.split)
  also have "\<dots> = (post_answer (transport e (sent w) ?q), w\<lparr>sent := sent w @ [?q]\<rparr>)"
    by (simp add: http_Do_def post_answer_def split: sum.split)
  finally show ?thesis using Inr by (simp add: Let_def)
qed

text \<open>The value a request gives to each header: what is set later overrides what was set before.\<close>

definition header_value :: "(string \<times> string) list \<Rightarrow> string \<Rightarrow> string option" where
  "header_value m x = map_of (rev (canonical m)) x"

lemma map_of_client_headers:
  "map_of (client_headers e c sid cred extra meth name w) =
     header_value (protocol_headers c sid meth name) ++ header_value (credential_headers (backend c) cred)
       ++ header_value (b_Headers (backend c)) ++ header_value extra ++ header_value (propagate e (sent w))"
proof -
  have "header_value (a @ b) = header_value a ++ header_value b" for a b
    by (rule ext) (simp add: header_value_def [abs_def] canonical_append)
  moreover have "map_of (client_headers e c sid cred extra meth name w) =
      header_value (protocol_headers c sid meth name @ credential_headers (backend c) cred
        @ b_Headers (backend c) @ extra @ propagate e (sent w))"
    by (simp add: client_headers_def map_of_Header_SetAll header_value_def fun_eq_iff)
  ultimately show ?thesis by (simp only: map_add_assoc)
qed

text \<open>C12. A call to a backend is at most one request: none when the backend's address does not parse, and
  otherwise a POST of exactly the given payload to that address. Its headers are the protocol's, then
  the tenant's credential, then the backend's configured headers, then the per-request ones, then the
  trace context, each overriding those before it, and nothing else; so nothing of the client's own
  request, its token in particular, can reach the backend. The answer is an error unless the status
  is in the 2xx range and the body can be decoded.\<close>

theorem post_request:
  "(case url_parse (url_String (b_URL (backend c))) of
      Inl err \<Rightarrow> post e c payload sid cred extra meth name w = (Inl err, w)
    | Inr _ \<Rightarrow>
        (\<exists>q. post e c payload sid cred extra meth name w = (post_answer (transport e (sent w) q), w\<lparr>sent := sent w @ [q]\<rparr>)
           \<and> bmethod q = ''POST'' \<and> burl q = url_String (b_URL (backend c)) \<and> bpayload q = Some payload
           \<and> map_of (bheaders q) =
               header_value (protocol_headers c sid meth name) ++ header_value (credential_headers (backend c) cred)
                 ++ header_value (b_Headers (backend c)) ++ header_value extra ++ header_value (propagate e (sent w))))"
  by (auto simp: post_eq client_request_def map_of_client_headers Let_def split: sum.split)

section \<open>The calls\<close>

text \<open>The requests the proxy may send on behalf of a tenant with this backend and credential.\<close>

definition backend_request :: "env \<Rightarrow> Backend \<Rightarrow> string \<Rightarrow> breq \<Rightarrow> bool" where
  "backend_request e b cred q \<longleftrightarrow>
     (\<exists>payload sid extra meth name w. q = client_request e (newBackendClient b) payload sid cred extra meth name w)"

lemma backend_newBackendClient [simp]: "backend (newBackendClient b) = b" "stateless (newBackendClient b) = Stateless b"
  by (simp_all add: newBackendClient_def)

lemma backend_requestD:
  "backend_request e b cred q \<Longrightarrow> burl q = url_String (b_URL b) \<and> bmethod q = ''POST''"
  by (auto simp: backend_request_def client_request_def)

lemma backend_requestI: "backend_request e b cred (client_request e (newBackendClient b) payload sid cred extra meth name w)"
  unfolding backend_request_def by blast

lemma sends_post: "sends (backend_request e b cred) w (snd (post e (newBackendClient b) payload sid cred extra meth name w))"
  by (auto simp: post_eq Let_def intro!: sends_one backend_requestI split: sum.split)

definition initialize_request :: "env \<Rightarrow> backendClient \<Rightarrow> json \<Rightarrow> string \<Rightarrow> io \<Rightarrow> breq" where
  "initialize_request e c p cred w =
     client_request e c (Marshal_request \<lparr>rq_JSONRPC = ''2.0'', rq_Method = ''initialize'', rq_Params = Some p,
        rq_ID = Some (JNum ''1'')\<rparr>) [] cred [] ''initialize'' [] w"

lemma snd_initialize:
  "snd (initialize e c p cred w) =
     snd (post e c (Marshal_request \<lparr>rq_JSONRPC = ''2.0'', rq_Method = ''initialize'', rq_Params = Some p,
        rq_ID = Some (JNum ''1'')\<rparr>) [] cred [] ''initialize'' [] w)"
  by (simp add: initialize_def Let_def split: prod.split sum.split option.split)

lemma snd_listTools:
  "\<exists>payload. snd (listTools e c sid cred hs w) = snd (post e c payload sid cred hs ''tools/list'' [] w)"
proof (rule exI)
  show "snd (listTools e c sid cred hs w) = snd (post e c (Marshal_request \<lparr>rq_JSONRPC = ''2.0'',
      rq_Method = ''tools/list'', rq_Params = (if stateless c then injectMeta None else None),
      rq_ID = Some (JNum ''2'')\<rparr>) sid cred hs ''tools/list'' [] w)"
    unfolding listTools_def Let_def by (auto split: prod.split sum.split option.split)
qed

lemma snd_callTool:
  "snd (callTool e c sid cred p hs n w) = w
   \<or> (\<exists>payload. snd (callTool e c sid cred p hs n w) = snd (post e c payload sid cred hs ''tools/call'' n w))"
proof -
  define r where "r = (if stateless c then
              (case Unmarshal_request p of
                 Inl err \<Rightarrow> Some (Inl (''bad tools/call request: '' @ err))
               | Inr req \<Rightarrow>
                   map_option (\<lambda>p. Inr (Marshal_request (req\<lparr>rq_Params := Some p\<rparr>))) (injectMeta (rq_Params req)))
            else Some (Inr p))"
  have eq: "snd (callTool e c sid cred p hs n w) =
      (case r of Some (Inr bytes) \<Rightarrow> snd (post e c bytes sid cred hs ''tools/call'' n w) | _ \<Rightarrow> w)"
    unfolding callTool_def r_def [symmetric] by (simp split: option.split sum.split prod.split)
  show ?thesis
  proof (cases "\<exists>bytes. r = Some (Inr bytes)")
    case True
    then show ?thesis unfolding eq by auto
  next
    case False
    then show ?thesis unfolding eq by (simp split: option.split sum.split)
  qed
qed

lemma sends_initialize: "sends (backend_request e b cred) w (snd (initialize e (newBackendClient b) p cred w))"
  unfolding snd_initialize by (rule sends_post)

lemma sends_notify: "sends (backend_request e b cred) w (notifyInitialized e (newBackendClient b) sid cred w)"
  unfolding notifyInitialized_def Let_def by (rule sends_post)

lemma sends_listTools: "sends (backend_request e b cred) w (snd (listTools e (newBackendClient b) sid cred hs w))"
  using snd_listTools [of e "newBackendClient b" sid cred hs w] sends_post by metis

lemma sends_callTool: "sends (backend_request e b cred) w (snd (callTool e (newBackendClient b) sid cred p hs n w))"
  using snd_callTool [of e "newBackendClient b" sid cred p hs n w] sends_post sends_refl by metis

end
