(* ===== verification/Catalog.thy ===== *)
theory Catalog
  imports Client
begin

text \<open>
  The tool catalogs (\<^verbatim>\<open>internal/proxy/catalog.go\<close>): for every tenant the tools its backend lists for
  it, fetched on demand, kept for a time to live and served stale when a refresh fails. Tenants that
  see their backend identically share one catalog: the pointers of the source are indices into the
  list of catalogs.
\<close>

record catalog =
  cat_backend :: Backend
  cat_cred :: string
  cat_headers :: "(string, string) gomap"
  cat_ttl :: int
  cat_tools :: "rawTool list option"
  fetchedAt :: int

definition newCatalog :: "Backend \<Rightarrow> string \<Rightarrow> (string, string) gomap \<Rightarrow> int \<Rightarrow> catalog" where
  "newCatalog b cred headers ttl =
     \<lparr>cat_backend = b, cat_cred = cred, cat_headers = headers, cat_ttl = ttl, cat_tools = None, fetchedAt = 0\<rparr>"

record Catalogs =
  cs_byTenant :: "(string, nat) gomap"
  unique :: "catalog list"

definition NUL :: string where "NUL = [CHR 0x00]"

definition viewKey :: "Tenant \<Rightarrow> string" where
  "viewKey t =
     (let keys = sort (map fst (t_Headers t)) in
      b_Name (t_Backend t) @ NUL @ EffectiveCredential t
      @ concat (map (\<lambda>k. NUL @ CanonicalHeaderKey k @ ''='' @ (case map_of (t_Headers t) k of None \<Rightarrow> [] | Some v \<Rightarrow> v)) keys))"

text \<open>One turn of the loop of \<^verbatim>\<open>NewCatalogs\<close>; the first component is its local map \<^verbatim>\<open>byKey\<close>.\<close>

definition addTenant :: "int \<Rightarrow> Tenant \<Rightarrow> (string, nat) gomap \<times> Catalogs \<Rightarrow> (string, nat) gomap \<times> Catalogs" where
  "addTenant ttl t s =
     (case s of (byKey, cs) \<Rightarrow>
        let key = viewKey t in
        case map_of byKey key of
          Some i \<Rightarrow> (byKey, cs\<lparr>cs_byTenant := gomap_set (t_ID t) i (cs_byTenant cs)\<rparr>)
        | None \<Rightarrow>
            (let c = newCatalog (t_Backend t) (EffectiveCredential t) (t_Headers t) ttl; i = length (unique cs)
             in (gomap_set key i byKey,
                 cs\<lparr>unique := unique cs @ [c], cs_byTenant := gomap_set (t_ID t) i (cs_byTenant cs)\<rparr>)))"

definition NewCatalogs :: "Registry \<Rightarrow> int \<Rightarrow> Catalogs" where
  "NewCatalogs reg ttl =
     snd (fold (addTenant ttl) (sort_key t_ID (Tenants reg)) ([], \<lparr>cs_byTenant = [], unique = []\<rparr>))"

section \<open>Fetching\<close>

definition fetch :: "env \<Rightarrow> catalog \<Rightarrow> io \<Rightarrow> (string + rawTool list option) \<times> io" where
  "fetch e c w =
     (let client = newBackendClient (cat_backend c); cred = cat_cred c in
      if Stateless (cat_backend c) then listTools e client [] cred (cat_headers c) w
      else case initialize e client defaultInitParams cred w of
             (Inl err, w1) \<Rightarrow> (Inl err, w1)
           | (Inr (sid, _), w1) \<Rightarrow>
               (let w2 = (if sid \<noteq> [] then notifyInitialized e client sid cred w1 else w1)
                in listTools e client sid cred (cat_headers c) w2))"

text \<open>\<^verbatim>\<open>c.tools != nil && c.now().Sub(c.fetchedAt) < c.ttl\<close>: the clock is read only for a filled catalog.\<close>

definition fresh :: "env \<Rightarrow> catalog \<Rightarrow> io \<Rightarrow> bool \<times> io" where
  "fresh e c w =
     (if cat_tools c = None then (False, w)
      else (let (now, w1) = time_Now e w in (now - fetchedAt c < cat_ttl c, w1)))"

definition cat_get :: "env \<Rightarrow> catalog \<Rightarrow> io \<Rightarrow> (string + rawTool list option) \<times> catalog \<times> io" where
  "cat_get e c w =
     (case fresh e c w of (isFresh, w0) \<Rightarrow>
        if isFresh then (Inr (cat_tools c), c, w0)
        else (case fetch e c w0 of
                (Inl err, w1) \<Rightarrow>
                  if cat_tools c \<noteq> None then (Inr (cat_tools c), c, w1) else (Inl err, c, w1)
              | (Inr tools, w1) \<Rightarrow>
                  (let (now, w2) = time_Now e w1
                   in (Inr tools, c\<lparr>cat_tools := tools, fetchedAt := now\<rparr>, w2))))"

definition cached :: "catalog \<Rightarrow> rawTool list option" where
  "cached c = cat_tools c"

definition toolName :: "rawTool \<Rightarrow> string" where
  "toolName t =
     (case map_of t ''name'' of
        None \<Rightarrow> []
      | Some raw \<Rightarrow> (case Unmarshal_string raw of Inl _ \<Rightarrow> [] | Inr s \<Rightarrow> s))"

definition catalogGet :: "env \<Rightarrow> nat \<Rightarrow> Catalogs \<Rightarrow> io \<Rightarrow> (string + rawTool list option) \<times> Catalogs \<times> io" where
  "catalogGet e i cs w =
     (case cat_get e (unique cs ! i) w of (r, c, w1) \<Rightarrow> (r, cs\<lparr>unique := (unique cs)[i := c]\<rparr>, w1))"

text \<open>The loops of \<^verbatim>\<open>warm\<close> and of \<^verbatim>\<open>toolsFor\<close>, each with the errors it collects.\<close>

fun warmLoop :: "env \<Rightarrow> nat list \<Rightarrow> Catalogs \<Rightarrow> io \<Rightarrow> string list \<times> Catalogs \<times> io" where
  "warmLoop e [] cs w = ([], cs, w)"
| "warmLoop e (i # is) cs w =
     (case catalogGet e i cs w of (r, cs1, w1) \<Rightarrow>
        (case warmLoop e is cs1 w1 of (errs, cs2, w2) \<Rightarrow>
           ((case r of Inl err \<Rightarrow> err # errs | Inr _ \<Rightarrow> errs), cs2, w2)))"

definition warm :: "env \<Rightarrow> Catalogs \<Rightarrow> io \<Rightarrow> string list \<times> Catalogs \<times> io" where
  "warm e cs w = warmLoop e [0..<length (unique cs)] cs w"

type_synonym tenantTools = "Tenant \<times> rawTool list"

definition tools_list :: "rawTool list option \<Rightarrow> rawTool list" where
  "tools_list ts = (case ts of None \<Rightarrow> [] | Some l \<Rightarrow> l)"

fun toolsLoop ::
    "env \<Rightarrow> Tenant list \<Rightarrow> Catalogs \<Rightarrow> io \<Rightarrow> tenantTools list \<times> string list \<times> Catalogs \<times> io" where
  "toolsLoop e [] cs w = ([], [], cs, w)"
| "toolsLoop e (t # ts) cs w =
     (case map_of (cs_byTenant cs) (t_ID t) of
        None \<Rightarrow> toolsLoop e ts cs w
      | Some i \<Rightarrow>
          (case catalogGet e i cs w of (r, cs1, w1) \<Rightarrow>
             (case toolsLoop e ts cs1 w1 of (out, errs, cs2, w2) \<Rightarrow>
                (case r of
                   Inl err \<Rightarrow> (out, err # errs, cs2, w2)
                 | Inr tools \<Rightarrow> ((t, tools_list tools) # out, errs, cs2, w2)))))"

definition toolsFor ::
    "env \<Rightarrow> Tenant list \<Rightarrow> Catalogs \<Rightarrow> io \<Rightarrow> (string list + tenantTools list) \<times> Catalogs \<times> io" where
  "toolsFor e tenants cs w =
     (case toolsLoop e tenants cs w of (out, errs, cs1, w1) \<Rightarrow>
        if out = [] \<and> errs \<noteq> [] then (Inl errs, cs1, w1) else (Inr out, cs1, w1))"

text \<open>The result is the tool, when found, and whether the catalog is known; found implies known.\<close>

definition cachedTool :: "Catalogs \<Rightarrow> string \<Rightarrow> string \<Rightarrow> rawTool option \<times> bool" where
  "cachedTool cs tenantID name =
     (case map_of (cs_byTenant cs) tenantID of
        None \<Rightarrow> (None, False)
      | Some i \<Rightarrow>
          (case cached (unique cs ! i) of
             None \<Rightarrow> (None, False)
           | Some tools \<Rightarrow>
               (case List.find (\<lambda>t. toolName t = name) tools of
                  None \<Rightarrow> (None, True)
                | Some t \<Rightarrow> (Some t, True))))"

section \<open>What routing knows of a tenant's tools\<close>

text \<open>
  The contract of the cache toward its clients: looking a tool up answers from the tool list that is
  cached for the tenant, if any, and says whether there is one.
\<close>

locale tool_cache =
  fixes lookup :: "'c \<Rightarrow> string \<Rightarrow> string \<Rightarrow> rawTool option \<times> bool"
    and cached_tools :: "'c \<Rightarrow> string \<Rightarrow> rawTool list option"
  assumes unknown: "cached_tools cs t = None \<Longrightarrow> lookup cs t n = (None, False)"
    and known: "cached_tools cs t = Some ts \<Longrightarrow> lookup cs t n = (List.find (\<lambda>x. toolName x = n) ts, True)"
begin

definition may_have :: "'c \<Rightarrow> string \<Rightarrow> string \<Rightarrow> bool" where
  "may_have cs t n \<longleftrightarrow> (case cached_tools cs t of None \<Rightarrow> True | Some ts \<Rightarrow> n \<in> toolName ` set ts)"

lemma found_or_unknown: "fst (lookup cs t n) \<noteq> None \<or> \<not> snd (lookup cs t n) \<longleftrightarrow> may_have cs t n"
proof (cases "cached_tools cs t")
  case (Some ts)
  have "List.find (\<lambda>x. toolName x = n) ts = None \<longleftrightarrow> n \<notin> toolName ` set ts"
    by (auto simp: find_None_iff)
  with Some show ?thesis by (simp add: known may_have_def)
qed (simp add: unknown may_have_def)

lemma found_tool: "fst (lookup cs t n) = Some x \<Longrightarrow> \<exists>ts. cached_tools cs t = Some ts \<and> x \<in> set ts \<and> toolName x = n"
  by (cases "cached_tools cs t") (auto simp: unknown known find_Some_iff)

end

definition cachedTools :: "Catalogs \<Rightarrow> string \<Rightarrow> rawTool list option" where
  "cachedTools cs tenantID =
     (case map_of (cs_byTenant cs) tenantID of None \<Rightarrow> None | Some i \<Rightarrow> cached (unique cs ! i))"

interpretation tools: tool_cache cachedTool cachedTools
  by unfold_locales (auto simp: cachedTool_def cachedTools_def split: option.splits)

section \<open>Fetching and keeping\<close>

lemma sends_fetch: "sends (backend_request e (cat_backend c) (cat_cred c)) w (snd (fetch e c w))"
proof (cases "Stateless (cat_backend c)")
  case True
  then show ?thesis by (simp add: fetch_def Let_def sends_listTools)
next
  case False
  let ?P = "backend_request e (cat_backend c) (cat_cred c)"
  let ?i = "initialize e (newBackendClient (cat_backend c)) defaultInitParams (cat_cred c) w"
  have "sends ?P w (snd ?i)" by (rule sends_initialize)
  moreover have "sends ?P (snd ?i) (snd (fetch e c w))"
  proof (cases "fst ?i")
    case (Inl err)
    then obtain w1 where "?i = (Inl err, w1)" by (metis prod.collapse)
    with False show ?thesis by (simp add: fetch_def Let_def)
  next
    case (Inr r)
    then obtain sid res w1 where i: "?i = (Inr (sid, res), w1)" by (metis prod.collapse)
    let ?w2 = "if sid \<noteq> [] then notifyInitialized e (newBackendClient (cat_backend c)) sid (cat_cred c) w1 else w1"
    have "sends ?P w1 ?w2" by (simp add: sends_notify)
    moreover have "snd (fetch e c w) =
        snd (listTools e (newBackendClient (cat_backend c)) sid (cat_cred c) (cat_headers c) ?w2)"
      using False by (simp add: fetch_def i Let_def)
    ultimately show ?thesis using i sends_listTools sends_trans by (metis snd_conv)
  qed
  ultimately show ?thesis by (rule sends_trans)
qed

definition same_view :: "catalog \<Rightarrow> catalog \<Rightarrow> bool" where
  "same_view c c' \<longleftrightarrow> cat_backend c' = cat_backend c \<and> cat_cred c' = cat_cred c \<and> cat_headers c' = cat_headers c
     \<and> cat_ttl c' = cat_ttl c"

text \<open>The world after the freshness test, and what a lookup makes of the catalog, as equations.\<close>

definition after_test :: "catalog \<Rightarrow> io \<Rightarrow> io" where
  "after_test c w = (if cat_tools c = None then w else w\<lparr>ticks := Suc (ticks w)\<rparr>)"

definition is_fresh :: "env \<Rightarrow> catalog \<Rightarrow> io \<Rightarrow> bool" where
  "is_fresh e c w \<longleftrightarrow> cat_tools c \<noteq> None \<and> clock e (ticks w) - fetchedAt c < cat_ttl c"

lemma fresh_eq: "fresh e c w = (is_fresh e c w, after_test c w)"
  by (simp add: fresh_def is_fresh_def after_test_def time_Now_def)

lemma after_test_sent [simp]: "sent (after_test c w) = sent w"
  by (simp add: after_test_def)

lemma cat_get_eq:
  "cat_get e c w =
     (if is_fresh e c w then (Inr (cat_tools c), c, after_test c w)
      else (let w1 = snd (fetch e c (after_test c w)) in
            case fst (fetch e c (after_test c w)) of
              Inl err \<Rightarrow> if cat_tools c \<noteq> None then (Inr (cat_tools c), c, w1) else (Inl err, c, w1)
            | Inr tools \<Rightarrow> (Inr tools, c\<lparr>cat_tools := tools, fetchedAt := clock e (ticks w1)\<rparr>,
                            w1\<lparr>ticks := Suc (ticks w1)\<rparr>)))"
  by (simp add: cat_get_def fresh_eq time_Now_def Let_def split: prod.split sum.split)

lemma cat_get_sends: "sends (backend_request e (cat_backend c) (cat_cred c)) w (snd (snd (cat_get e c w)))"
proof -
  let ?w1 = "snd (fetch e c (after_test c w))"
  have "sends (backend_request e (cat_backend c) (cat_cred c)) w ?w1"
    using sends_fetch [of e c "after_test c w"] by (auto simp: sends_def)
  then show ?thesis
    by (auto simp: cat_get_eq Let_def sends_def split: sum.split)
qed

lemma cat_get_view: "same_view c (fst (snd (cat_get e c w)))"
  by (simp add: cat_get_eq same_view_def Let_def split: sum.split)

lemma cat_get_result:
  "case fst (cat_get e c w) of
     Inl err \<Rightarrow> cat_tools c = None \<and> fst (snd (cat_get e c w)) = c
   | Inr ts \<Rightarrow> cat_tools (fst (snd (cat_get e c w))) = ts"
  by (simp add: cat_get_eq Let_def split: sum.split)


definition example_backend :: Backend where
  "example_backend = \<lparr>b_Name = ''gh'', b_URL = empty_url\<lparr>url_scheme := ''http'', url_host := ''gh''\<rparr>, b_Headers = [],
     b_Credential = ''k'', b_CredentialHeader = ''Authorization'', b_CredentialScheme = ''Bearer'',
     b_ProtocolVersion = ProtocolVersionStateless\<rparr>"

definition example_catalog :: catalog where
  "example_catalog = (newCatalog example_backend ''k'' [] 10)\<lparr>cat_tools := Some [example_tool], fetchedAt := - 20\<rparr>"


section \<open>Sharing\<close>

text \<open>What a tenant's catalog depends on, and the tenants for which the key of the source tells all of it:
  no NUL byte in names, credentials and values, and header names that HTTP allows.\<close>

definition tenant_view :: "Tenant \<Rightarrow> string \<times> string \<times> (string \<times> string) list" where
  "tenant_view t =
     (b_Name (t_Backend t), EffectiveCredential t,
      map (\<lambda>k. (CanonicalHeaderKey k, case map_of (t_Headers t) k of None \<Rightarrow> [] | Some v \<Rightarrow> v)) (sort (map fst (t_Headers t))))"

definition view_clean :: "Tenant \<Rightarrow> bool" where
  "view_clean t \<longleftrightarrow> CHR 0x00 \<notin> set (b_Name (t_Backend t)) \<and> CHR 0x00 \<notin> set (EffectiveCredential t)
     \<and> list_all (\<lambda>(k, v). list_all validHeaderFieldByte k \<and> CHR 0x00 \<notin> set v) (t_Headers t)"

lemma split_sep: "x \<notin> set a \<Longrightarrow> x \<notin> set b \<Longrightarrow> a @ x # r = b @ x # s \<longleftrightarrow> a = b \<and> r = s"
proof (induction a arbitrary: b)
  case Nil
  then show ?case by (cases b) auto
next
  case (Cons c a)
  then show ?case by (cases b) auto
qed

lemma nul_pieces:
  assumes "CHR 0x00 \<notin> set a" "CHR 0x00 \<notin> set b"
    and "\<forall>p \<in> set ps. CHR 0x00 \<notin> set p" "\<forall>q \<in> set qs. CHR 0x00 \<notin> set q"
    and "a @ concat (map (\<lambda>p. NUL @ p) ps) = b @ concat (map (\<lambda>q. NUL @ q) qs)"
  shows "a = b \<and> ps = qs"
  using assms
proof (induction ps arbitrary: a b qs)
  case Nil
  then show ?case by (cases qs) (auto simp: NUL_def)
next
  case (Cons p ps)
  show ?case
  proof (cases qs)
    case Nil
    with Cons.prems show ?thesis by (auto simp: NUL_def)
  next
    case (Cons q qs')
    with Cons.prems have "a @ CHR 0x00 # (p @ concat (map (\<lambda>p. NUL @ p) ps)) = b @ CHR 0x00 # (q @ concat (map (\<lambda>q. NUL @ q) qs'))"
      by (simp add: NUL_def)
    with Cons.prems(1,2) have "a = b" and "p @ concat (map (\<lambda>p. NUL @ p) ps) = q @ concat (map (\<lambda>q. NUL @ q) qs')"
      by (simp_all add: split_sep)
    with Cons.IH [of p q qs'] Cons.prems(3,4) Cons show ?thesis by simp
  qed
qed

lemma valid_key_chars:
  "list_all validHeaderFieldByte k \<Longrightarrow> CHR 0x00 \<notin> set (CanonicalHeaderKey k) \<and> CHR ''='' \<notin> set (CanonicalHeaderKey k)"
proof -
  assume "list_all validHeaderFieldByte k"
  then have "list_all validHeaderFieldByte (CanonicalHeaderKey k)"
    by (simp add: CanonicalHeaderKey_def valid_canon_bytes)
  moreover have "\<not> validHeaderFieldByte (CHR 0x00)" "\<not> validHeaderFieldByte (CHR ''='')" by code_simp+
  ultimately show ?thesis by (auto simp: list_all_iff)
qed

definition view_piece :: "string \<times> string \<Rightarrow> string" where
  "view_piece kv = fst kv @ ''='' @ snd kv"

lemma view_piece_inject:
  "CHR ''='' \<notin> set (fst x) \<Longrightarrow> CHR ''='' \<notin> set (fst y) \<Longrightarrow> view_piece x = view_piece y \<Longrightarrow> x = y"
  by (cases x; cases y) (simp add: view_piece_def split_sep)

lemma viewKey_view:
  "viewKey t = (case tenant_view t of (n, c, hs) \<Rightarrow> n @ concat (map (\<lambda>p. NUL @ p) (c # map view_piece hs)))"
  by (simp add: viewKey_def tenant_view_def view_piece_def comp_def)

lemma tenant_view_clean:
  assumes "view_clean t" and "(k, v) \<in> set (snd (snd (tenant_view t)))"
  shows "CHR 0x00 \<notin> set k \<and> CHR ''='' \<notin> set k \<and> CHR 0x00 \<notin> set v"
proof -
  from assms(2) obtain h where h: "h \<in> fst ` set (t_Headers t)" "k = CanonicalHeaderKey h"
    "v = (case map_of (t_Headers t) h of None \<Rightarrow> [] | Some v \<Rightarrow> v)"
    by (auto simp: tenant_view_def)
  then obtain x where "map_of (t_Headers t) h = Some x"
    by (metis map_of_eq_None_iff not_None_eq)
  then have "v = x" "(h, x) \<in> set (t_Headers t)" using h(3) by (auto dest: map_of_SomeD)
  with assms(1) h(2) valid_key_chars show ?thesis by (auto simp: view_clean_def list_all_iff)
qed

lemma viewKey_inject:
  assumes "view_clean t" "view_clean u"
  shows "viewKey t = viewKey u \<longleftrightarrow> tenant_view t = tenant_view u"
proof
  assume eq: "viewKey t = viewKey u"
  obtain n c hs where t: "tenant_view t = (n, c, hs)" by (cases "tenant_view t") auto
  obtain m d ks where u: "tenant_view u = (m, d, ks)" by (cases "tenant_view u") auto
  have ht: "CHR 0x00 \<notin> set k \<and> CHR ''='' \<notin> set k \<and> CHR 0x00 \<notin> set v" if "(k, v) \<in> set hs" for k v
    using tenant_view_clean [OF assms(1)] that t by simp
  have hu: "CHR 0x00 \<notin> set k \<and> CHR ''='' \<notin> set k \<and> CHR 0x00 \<notin> set v" if "(k, v) \<in> set ks" for k v
    using tenant_view_clean [OF assms(2)] that u by simp
  have pieces: "n = m \<and> c # map view_piece hs = d # map view_piece ks"
  proof (rule nul_pieces)
    show "CHR 0x00 \<notin> set n" "CHR 0x00 \<notin> set m"
      using assms t u by (auto simp: view_clean_def tenant_view_def)
    show "\<forall>p \<in> set (c # map view_piece hs). CHR 0x00 \<notin> set p" "\<forall>q \<in> set (d # map view_piece ks). CHR 0x00 \<notin> set q"
      using assms t u ht hu by (auto simp: view_clean_def tenant_view_def view_piece_def)
    show "n @ concat (map (\<lambda>p. NUL @ p) (c # map view_piece hs)) = m @ concat (map (\<lambda>q. NUL @ q) (d # map view_piece ks))"
      using eq t u by (simp add: viewKey_view)
  qed
  moreover have "hs = ks"
  proof (rule map_inj_on)
    show "map view_piece hs = map view_piece ks" using pieces by simp
    show "inj_on view_piece (set hs \<union> set ks)"
      by (rule inj_onI, rule view_piece_inject) (use ht hu in \<open>auto\<close>)
  qed
  ultimately show "tenant_view t = tenant_view u" using t u by simp
qed (simp add: viewKey_view)

text \<open>The loop invariant of \<^verbatim>\<open>NewCatalogs\<close> after the tenants \<open>ts\<close>.\<close>

definition catalogs_inv :: "int \<Rightarrow> Tenant list \<Rightarrow> (string, nat) gomap \<times> Catalogs \<Rightarrow> bool" where
  "catalogs_inv ttl ts s \<longleftrightarrow>
     (\<forall>t \<in> set ts. map_of (cs_byTenant (snd s)) (t_ID t) = map_of (fst s) (viewKey t) \<and> map_of (fst s) (viewKey t) \<noteq> None)
     \<and> (\<forall>k i. map_of (fst s) k = Some i \<longrightarrow> i < length (unique (snd s))
          \<and> (\<exists>u \<in> set ts. viewKey u = k
               \<and> unique (snd s) ! i = newCatalog (t_Backend u) (EffectiveCredential u) (t_Headers u) ttl))
     \<and> (\<forall>k k' i. map_of (fst s) k = Some i \<and> map_of (fst s) k' = Some i \<longrightarrow> k = k')"

lemma catalogs_inv_step:
  assumes "catalogs_inv ttl ts s" and "t_ID t \<notin> t_ID ` set ts"
  shows "catalogs_inv ttl (ts @ [t]) (addTenant ttl t s)"
proof -
  obtain bk cs where s: "s = (bk, cs)" by (cases s)
  from assms(1) s have I: "\<forall>u \<in> set ts. map_of (cs_byTenant cs) (t_ID u) = map_of bk (viewKey u) \<and> map_of bk (viewKey u) \<noteq> None"
    and J: "\<forall>k i. map_of bk k = Some i \<longrightarrow> i < length (unique cs) \<and> (\<exists>u \<in> set ts. viewKey u = k
              \<and> unique cs ! i = newCatalog (t_Backend u) (EffectiveCredential u) (t_Headers u) ttl)"
    and K: "\<forall>k k' i. map_of bk k = Some i \<and> map_of bk k' = Some i \<longrightarrow> k = k'"
    unfolding catalogs_inv_def by simp_all
  have other: "u \<in> set ts \<Longrightarrow> t_ID u \<noteq> t_ID t" for u using assms(2) by (metis imageI)
  show ?thesis
  proof (cases "map_of bk (viewKey t)")
    case (Some i)
    then have step: "addTenant ttl t s = (bk, cs\<lparr>cs_byTenant := gomap_set (t_ID t) i (cs_byTenant cs)\<rparr>)"
      by (simp add: s addTenant_def Let_def)
    show ?thesis unfolding catalogs_inv_def step
      using I J K Some other by (auto simp: update_conv' simp del: map_of_eq_Some_iff)
  next
    case None
    define i where "i = length (unique cs)"
    define c where "c = newCatalog (t_Backend t) (EffectiveCredential t) (t_Headers t) ttl"
    have step: "addTenant ttl t s = (gomap_set (viewKey t) i bk,
        cs\<lparr>unique := unique cs @ [c], cs_byTenant := gomap_set (t_ID t) i (cs_byTenant cs)\<rparr>)"
      using None by (simp add: s addTenant_def Let_def i_def c_def)
    have fresh: "viewKey u \<noteq> viewKey t" if "u \<in> set ts" for u using I None that by metis
    have less: "map_of bk k = Some j \<Longrightarrow> j < i" for k j using J by (simp add: i_def)
    have "\<forall>u \<in> set (ts @ [t]). map_of (gomap_set (t_ID t) i (cs_byTenant cs)) (t_ID u) = map_of (gomap_set (viewKey t) i bk) (viewKey u)
        \<and> map_of (gomap_set (viewKey t) i bk) (viewKey u) \<noteq> None"
      using I other fresh by (simp add: update_conv')
    moreover have "j < length (unique cs @ [c]) \<and> (\<exists>u \<in> set (ts @ [t]). viewKey u = k
        \<and> (unique cs @ [c]) ! j = newCatalog (t_Backend u) (EffectiveCredential u) (t_Headers u) ttl)"
      if "map_of (gomap_set (viewKey t) i bk) k = Some j" for k j
    proof (cases "k = viewKey t")
      case True
      with that have "j = i" by simp
      with True show ?thesis by (simp add: i_def c_def)
    next
      case False
      with that have "map_of bk k = Some j" by (simp add: update_conv')
      with J less show ?thesis by (fastforce simp: nth_append i_def)
    qed
    moreover have "k = k'" if "map_of (gomap_set (viewKey t) i bk) k = Some j" "map_of (gomap_set (viewKey t) i bk) k' = Some j" for k k' j
      using that K less by (metis less_irrefl map_of_update_eq map_of_update_neq option.inject)
    ultimately show ?thesis unfolding catalogs_inv_def step by simp
  qed
qed

lemma catalogs_inv_fold:
  "catalogs_inv ttl ts s \<Longrightarrow> distinct (map t_ID (ts @ us)) \<Longrightarrow> catalogs_inv ttl (ts @ us) (fold (addTenant ttl) us s)"
proof (induction us arbitrary: ts s)
  case (Cons u us)
  then have "catalogs_inv ttl (ts @ [u]) (addTenant ttl u s)" by (intro catalogs_inv_step) auto
  with Cons.IH [of "ts @ [u]" "addTenant ttl u s"] Cons.prems(2) show ?case by simp
qed simp

lemma NewCatalogs_inv:
  assumes "reg_wf r"
  shows "\<exists>bk. catalogs_inv ttl (sort_key t_ID (Tenants r)) (bk, NewCatalogs r ttl)"
proof -
  have "distinct (map t_ID (sort_key t_ID (Tenants r)))"
    using assms by (simp add: distinct_sort_key_map distinct_Tenants_ids)
  then have "catalogs_inv ttl (sort_key t_ID (Tenants r))
      (fold (addTenant ttl) (sort_key t_ID (Tenants r)) ([], \<lparr>cs_byTenant = [], unique = []\<rparr>))"
    using catalogs_inv_fold [of ttl "[]" "([], \<lparr>cs_byTenant = [], unique = []\<rparr>)" "sort_key t_ID (Tenants r)"]
    by (simp add: catalogs_inv_def)
  then show ?thesis by (metis NewCatalogs_def prod.collapse)
qed

text \<open>The catalog that answers for a tenant shows what that tenant's backend lists for it.\<close>

definition serves :: "Catalogs \<Rightarrow> Tenant \<Rightarrow> bool" where
  "serves cs t \<longleftrightarrow>
     (case map_of (cs_byTenant cs) (t_ID t) of
        None \<Rightarrow> False
      | Some i \<Rightarrow>
          i < length (unique cs) \<and> cat_backend (unique cs ! i) = t_Backend t
          \<and> cat_cred (unique cs ! i) = EffectiveCredential t
          \<and> (\<exists>u. t_Headers u = cat_headers (unique cs ! i) \<and> snd (snd (tenant_view u)) = snd (snd (tenant_view t))))"

lemma NewCatalogs_serves:
  assumes "reg_wf r" and "inj_on b_Name (set (reg_backends r))" and "\<forall>t \<in> set (Tenants r). view_clean t"
    and "t \<in> set (Tenants r)"
  shows "serves (NewCatalogs r ttl) t"
proof -
  obtain bk where inv: "catalogs_inv ttl (sort_key t_ID (Tenants r)) (bk, NewCatalogs r ttl)"
    using NewCatalogs_inv [OF assms(1)] by blast
  then obtain i where i: "map_of (cs_byTenant (NewCatalogs r ttl)) (t_ID t) = Some i" "map_of bk (viewKey t) = Some i"
    using assms(4) unfolding catalogs_inv_def by auto
  then obtain u where u: "i < length (unique (NewCatalogs r ttl))" "u \<in> set (Tenants r)" "viewKey u = viewKey t"
    "unique (NewCatalogs r ttl) ! i = newCatalog (t_Backend u) (EffectiveCredential u) (t_Headers u) ttl"
    using inv unfolding catalogs_inv_def by (metis fst_conv set_sort snd_conv)
  then have view: "tenant_view u = tenant_view t" using viewKey_inject assms(3,4) by metis
  then have "t_Backend u = t_Backend t"
    using assms(2) Tenants_backend [OF assms(1)] u(2) assms(4) by (auto simp: tenant_view_def dest: inj_onD)
  with i u view show ?thesis
    unfolding serves_def by (auto simp: newCatalog_def tenant_view_def)
qed

text \<open>C13. With distinct backend names and header names that HTTP allows, sharing catalogs never mixes views:
  every tenant is answered from a catalog of its own backend, fetched with its own credential and
  with headers equal to its own up to the case of their names.\<close>

theorem catalogs_keep_views_apart:
  assumes "reg_wf r" and "inj_on b_Name (set (reg_backends r))" and "list_all view_clean (Tenants r)"
  shows "list_all (serves (NewCatalogs r ttl)) (Tenants r)"
  using NewCatalogs_serves [OF assms(1,2)] assms(3) by (simp add: list_all_iff)

text \<open>Three tenants on a stateless and a stateful backend; the first two have the same view.\<close>

definition stateful_backend :: Backend where
  "stateful_backend = \<lparr>b_Name = ''gf'', b_URL = empty_url\<lparr>url_scheme := ''http'', url_host := ''gf''\<rparr>,
     b_Headers = [(''X-Org'', ''1'')], b_Credential = [], b_CredentialHeader = ''X-Key'', b_CredentialScheme = [],
     b_ProtocolVersion = ProtocolVersionStateful\<rparr>"

definition demo_tenant :: "string \<Rightarrow> string \<Rightarrow> Backend \<Rightarrow> string \<Rightarrow> Tenant" where
  "demo_tenant i g b c = \<lparr>t_ID = i, t_Groups = [g], t_Headers = [], t_Credential = c, t_Backend = b\<rparr>"

definition demo_registry :: Registry where
  "demo_registry =
     \<lparr>byTenant = [(''acme'', demo_tenant ''acme'' ''dev'' example_backend []),
        (''beta'', demo_tenant ''beta'' ''ops'' example_backend []),
        (''corp'', demo_tenant ''corp'' ''dev'' stateful_backend ''pat'')],
      reg_backends = [example_backend, stateful_backend]\<rparr>"

lemma demo_registry_wf: "reg_wf demo_registry"
  by (simp add: reg_wf_def index_wf_def demo_registry_def demo_tenant_def)

lemma demo_names: "inj_on b_Name (set (reg_backends demo_registry))"
  by (simp add: demo_registry_def example_backend_def stateful_backend_def)

lemma demo_clean: "list_all view_clean (Tenants demo_registry)"
  by code_simp

theorem catalogs_keep_views_apart_witness:
  "list_all (serves (NewCatalogs demo_registry 5)) (Tenants demo_registry)
   \<and> map snd (cs_byTenant (NewCatalogs demo_registry 5)) = [0, 0, 1]"
proof
  show "list_all (serves (NewCatalogs demo_registry 5)) (Tenants demo_registry)"
    by (rule catalogs_keep_views_apart [OF demo_registry_wf demo_names demo_clean])
  show "map snd (cs_byTenant (NewCatalogs demo_registry 5)) = [0, 0, 1]"
    by code_simp
qed

section \<open>Lookups keep the catalogs in place\<close>

lemma same_view_catalogGet:
  "cs_byTenant (fst (snd (catalogGet e i cs w))) = cs_byTenant cs
   \<and> length (unique (fst (snd (catalogGet e i cs w)))) = length (unique cs)
   \<and> (\<forall>j < length (unique cs). same_view (unique cs ! j) (unique (fst (snd (catalogGet e i cs w))) ! j))"
proof -
  obtain r c w1 where g: "cat_get e (unique cs ! i) w = (r, c, w1)" by (metis prod_cases3)
  with cat_get_view [of "unique cs ! i" e w] have v: "same_view (unique cs ! i) c" by simp
  have "same_view (unique cs ! j) ((unique cs)[i := c] ! j)" if "j < length (unique cs)" for j
    using v that by (cases "i = j") (simp_all add: same_view_def)
  then show ?thesis by (simp add: catalogGet_def g)
qed

lemma serves_catalogGet: "serves cs t \<Longrightarrow> serves (fst (snd (catalogGet e i cs w))) t"
  using same_view_catalogGet [of e i cs w]
  by (auto simp: serves_def same_view_def split: option.splits)

lemma catalogGet_sends:
  assumes "serves cs t" and "map_of (cs_byTenant cs) (t_ID t) = Some i"
  shows "sends (backend_request e (t_Backend t) (EffectiveCredential t)) w (snd (snd (catalogGet e i cs w)))"
proof -
  have "cat_backend (unique cs ! i) = t_Backend t" "cat_cred (unique cs ! i) = EffectiveCredential t"
    using assms by (simp_all add: serves_def)
  moreover obtain r c w1 where g: "cat_get e (unique cs ! i) w = (r, c, w1)" by (metis prod_cases3)
  ultimately show ?thesis
    using cat_get_sends [of e "unique cs ! i" w] by (simp add: catalogGet_def)
qed

lemma serves_toolsLoop: "serves cs t \<Longrightarrow> serves (fst (snd (snd (toolsLoop e ts cs w)))) t"
proof (induction ts arbitrary: cs w)
  case (Cons u ts)
  show ?case
  proof (cases "map_of (cs_byTenant cs) (t_ID u)")
    case None
    with Cons show ?thesis by simp
  next
    case (Some i)
    obtain r cs1 w1 where g: "catalogGet e i cs w = (r, cs1, w1)" by (metis prod_cases3)
    with serves_catalogGet [OF Cons.prems, of e i w] have "serves cs1 t" by simp
    from Cons.IH [OF this, of w1] Some g show ?thesis by (auto split: prod.splits sum.splits)
  qed
qed simp

text \<open>A tools lookup for some tenants talks to those tenants' backends only, each with its credential.\<close>

definition tenants_request :: "env \<Rightarrow> Tenant list \<Rightarrow> breq \<Rightarrow> bool" where
  "tenants_request e ts q \<longleftrightarrow> (\<exists>t \<in> set ts. backend_request e (t_Backend t) (EffectiveCredential t) q)"

lemma toolsLoop_sends:
  "\<forall>t \<in> set ts. serves cs t \<Longrightarrow> sends (tenants_request e ts) w (snd (snd (snd (toolsLoop e ts cs w))))"
proof (induction ts arbitrary: cs w)
  case (Cons u ts)
  have sub: "sends (tenants_request e ts) x y \<Longrightarrow> sends (tenants_request e (u # ts)) x y" for x y
    by (erule sends_mono) (auto simp: tenants_request_def)
  show ?case
  proof (cases "map_of (cs_byTenant cs) (t_ID u)")
    case None
    with Cons sub show ?thesis by simp
  next
    case (Some i)
    obtain r cs1 w1 where g: "catalogGet e i cs w = (r, cs1, w1)" by (metis prod_cases3)
    have "sends (backend_request e (t_Backend u) (EffectiveCredential u)) w w1"
      using catalogGet_sends [OF _ Some, of e w] Cons.prems g by simp
    then have 1: "sends (tenants_request e (u # ts)) w w1" by (rule sends_mono) (auto simp: tenants_request_def)
    have "\<forall>t \<in> set ts. serves cs1 t" using Cons.prems serves_catalogGet [of cs _ e i w] g by simp
    from sub [OF Cons.IH [OF this, of w1]] 1 have "sends (tenants_request e (u # ts)) w (snd (snd (snd (toolsLoop e ts cs1 w1))))"
      by (blast intro: sends_trans)
    with Some g show ?thesis by (auto split: prod.splits sum.splits)
  qed
qed simp

lemma toolsLoop_tenants: "map fst (fst (toolsLoop e ts cs w)) \<in> set (subseqs ts)"
proof (induction ts arbitrary: cs w)
  case (Cons u ts)
  then show ?case
    by (auto simp: Let_def split: option.splits prod.splits sum.splits) (metis fst_conv imageI)+
qed simp

lemma serves_toolsFor: "serves cs t \<Longrightarrow> serves (fst (snd (toolsFor e ts cs w))) t"
  using serves_toolsLoop [of cs t e ts w] by (auto simp: toolsFor_def split: prod.split)

lemma toolsFor_sends:
  "\<forall>t \<in> set ts. serves cs t \<Longrightarrow> sends (tenants_request e ts) w (snd (snd (toolsFor e ts cs w)))"
  using toolsLoop_sends [of ts cs e w] by (auto simp: toolsFor_def split: prod.split)

end
