(* ===== verification/OAuth.thy ===== *)
theory OAuth
  imports Mcp Config
begin

text \<open>
  The OAuth protected-resource metadata (\<^verbatim>\<open>internal/proxy/oauth.go\<close>): the document itself, the
  addresses under which it and the resource are advertised, and error responses with a status code.
\<close>

definition request_scheme :: "hreq \<Rightarrow> string" where
  "request_scheme r =
     (if htls r \<or> Header_Get (hheaders r) ''X-Forwarded-Proto'' = ''https'' then ''https'' else ''http'')"

definition server_path :: "ServerConfig \<Rightarrow> string" where
  "server_path c = (if Path c = [] then ''/mcp'' else Path c)"

definition resourceURL :: "ServerConfig \<Rightarrow> hreq \<Rightarrow> string" where
  "resourceURL c r =
     (let path = server_path c in
      if ExternalURL c \<noteq> [] then
        (let ext = TrimSuffix (ExternalURL c) ''/'' in if \<not> HasSuffix ext path then ext @ path else ext)
      else request_scheme r @ ''://'' @ hhost r @ path)"

definition metadataURL :: "ServerConfig \<Rightarrow> hreq \<Rightarrow> string" where
  "metadataURL c r =
     (if ExternalURL c \<noteq> [] then
        (let ext = TrimSuffix (ExternalURL c) ''/''; path = server_path c;
             ext1 = (if HasSuffix ext path then TrimSuffix ext path else ext);
             ext2 = TrimSuffix ext1 ''/''
         in ext2 @ ''/.well-known/oauth-protected-resource'')
      else request_scheme r @ ''://'' @ hhost r @ ''/.well-known/oauth-protected-resource'')"

text \<open>\<^verbatim>\<open>ProtectedResourceMetadata\<close>, with its \<^verbatim>\<open>omitempty\<close> fields.\<close>

definition ServeProtectedResourceMetadata :: "ServerConfig \<Rightarrow> AuthConfig \<Rightarrow> hreq \<Rightarrow> hresp" where
  "ServeProtectedResourceMetadata sc ac r =
     (let metadata =
        JObj ([(''resource'', JStr (resourceURL sc r))]
          @ (if Issuer ac \<noteq> [] then [(''authorization_servers'', Marshal_strings [Issuer ac])] else [])
          @ (if ScopesSupported ac \<noteq> [] then [(''scopes_supported'', Marshal_strings (ScopesSupported ac))] else [])
          @ [(''bearer_methods_supported'', Marshal_strings [''header''])])
      in (set_hdr ''Content-Type'' ''application/json'' new_resp)\<lparr>rstatus := 200, rbody := BJson metadata\<rparr>)"

definition writeHTTPError :: "nat \<Rightarrow> RawMessage \<Rightarrow> int \<Rightarrow> string \<Rightarrow> hresp \<Rightarrow> hresp" where
  "writeHTTPError statusCode i code msg w =
     (set_hdr ''Content-Type'' ''application/json'' w)\<lparr>rstatus := statusCode, rbody := BJson (jsonRPCErrorBytes i code msg)\<rparr>"

section \<open>The advertised addresses agree\<close>

text \<open>The base of the deployment: scheme and host, and whatever precedes the path of the endpoint.\<close>

definition base_url :: "ServerConfig \<Rightarrow> hreq \<Rightarrow> string" where
  "base_url c r =
     (if ExternalURL c = [] then request_scheme r @ ''://'' @ hhost r
      else TrimSuffix (TrimSuffix (ExternalURL c) ''/'') (server_path c))"

lemma TrimSuffix_HasSuffix: "HasSuffix s p \<Longrightarrow> TrimSuffix s p @ p = s"
  by (auto simp: HasSuffix_iff)

lemma TrimSuffix_not: "\<not> HasSuffix s p \<Longrightarrow> TrimSuffix s p = s"
  by (simp add: TrimSuffix_def)

text \<open>The resource address and the metadata address are built on the same base, whether the external
  address is configured with or without the endpoint's path and with or without a trailing slash:
  the resource is the base followed by the path, and the metadata is the base, without a trailing
  slash of its own when it is configured, followed by the well-known suffix.\<close>

lemma advertised_addresses_agree:
  "resourceURL c r = base_url c r @ server_path c
   \<and> metadataURL c r = (if ExternalURL c = [] then base_url c r else TrimSuffix (base_url c r) ''/'')
       @ ''/.well-known/oauth-protected-resource''"
  by (cases "HasSuffix (TrimSuffix (ExternalURL c) ''/'') (server_path c)")
    (auto simp: resourceURL_def metadataURL_def base_url_def Let_def TrimSuffix_HasSuffix TrimSuffix_not)

end
