(* ===== verification/Observability.thy ===== *)
theory Observability
  imports Go_Strings
begin

text \<open>
  What the proxy records about itself (\<^verbatim>\<open>internal/observability\<close>): the set-up of the providers, the
  operation and session counters, the address of the metrics, and the shutdown. The OpenTelemetry and
  Prometheus packages are third-party code: their constructors are parameters, which succeed or fail,
  and what they export is not modelled; neither is the measured duration.
\<close>

record ObsConfig =
  oc_MetricsListen :: string
  oc_MetricsPath :: string
  oc_ServiceName :: string
  oc_ServiceVersion :: string

text \<open>
  The operation counter is the list of its increments, each with its attributes; the duration histogram
  gets one value with the same attributes at each of them. \<open>tracerProvider\<close> says whether spans are
  exported.
\<close>

record Observability =
  opCount :: "(string \<times> string) list list"
  sessionCount :: nat
  metricsListen :: string
  metricsPath :: string
  tracerProvider :: bool

text \<open>The constructors of the packages: merging the resource, the Prometheus exporter, the instruments by
  name, and the trace exporter. \<open>None\<close> is success.\<close>

record otel =
  ot_Merge :: "string \<Rightarrow> string \<Rightarrow> string option"   \<comment> \<open>of the service name and version\<close>
  ot_promexporter :: "string option"
  ot_Instrument :: "string \<Rightarrow> string option"
  ot_otlptracegrpc :: "string option"

section \<open>Set-up and shutdown\<close>

definition initInstruments :: "otel \<Rightarrow> string option" where
  "initInstruments o' =
     (case ot_Instrument o' ''mcp.server.operation.duration'' of
        Some err \<Rightarrow> Some (''operation duration histogram: '' @ err)
      | None \<Rightarrow>
          (case ot_Instrument o' ''mcp.server.operation.count'' of
             Some err \<Rightarrow> Some (''operation count counter: '' @ err)
           | None \<Rightarrow>
               (case ot_Instrument o' ''mcp.server.session.count'' of
                  Some err \<Rightarrow> Some (''session count counter: '' @ err)
                | None \<Rightarrow> None)))"

text \<open>Spans are exported only when an endpoint is configured.\<close>

definition setupTracing :: "otel \<Rightarrow> (string \<Rightarrow> string option) \<Rightarrow> Observability \<Rightarrow> string + Observability" where
  "setupTracing o' env ob =
     (if env ''OTEL_EXPORTER_OTLP_ENDPOINT'' \<notin> {None, Some []} then
        (case ot_otlptracegrpc o' of
           Some err \<Rightarrow> Inl (''otlp trace exporter: '' @ err)
         | None \<Rightarrow> Inr (ob\<lparr>tracerProvider := True\<rparr>))
      else Inr ob)"

definition Setup :: "otel \<Rightarrow> (string \<Rightarrow> string option) \<Rightarrow> ObsConfig \<Rightarrow> string + Observability" where
  "Setup o' env cfg =
     (let serviceName = (if oc_ServiceName cfg = [] then ''mt-mcp-proxy'' else oc_ServiceName cfg) in
      case ot_Merge o' serviceName (oc_ServiceVersion cfg) of
        Some err \<Rightarrow> Inl (''build resource: '' @ err)
      | None \<Rightarrow>
          (let ob = \<lparr>opCount = [], sessionCount = 0, metricsListen = oc_MetricsListen cfg,
                     metricsPath = oc_MetricsPath cfg, tracerProvider = False\<rparr> in
           case ot_promexporter o' of
             Some err \<Rightarrow> Inl (''prometheus exporter: '' @ err)
           | None \<Rightarrow>
               (case initInstruments o' of
                  Some err \<Rightarrow> Inl err
                | None \<Rightarrow> setupTracing o' env ob)))"

text \<open>The providers' own shutdowns are parameters; the first error is the result.\<close>

definition Shutdown :: "string option \<Rightarrow> string option \<Rightarrow> Observability option \<Rightarrow> string option" where
  "Shutdown tracerErr meterErr ob =
     (case ob of
        None \<Rightarrow> None
      | Some o' \<Rightarrow>
          (let firstErr = (if tracerProvider o' then tracerErr else None)
           in if meterErr \<noteq> None \<and> firstErr = None then meterErr else firstErr))"

definition obs_MetricsListen :: "Observability option \<Rightarrow> string" where
  "obs_MetricsListen ob = (case ob of None \<Rightarrow> [] | Some o' \<Rightarrow> metricsListen o')"

definition obs_MetricsPath :: "Observability option \<Rightarrow> string" where
  "obs_MetricsPath ob =
     (case ob of None \<Rightarrow> ''/metrics'' | Some o' \<Rightarrow> if metricsPath o' = [] then ''/metrics'' else metricsPath o')"

section \<open>Recording\<close>

record ToolCallAttrs =
  a_Method :: string
  a_Tool :: string
  a_TenantID :: string
  a_Backend :: string
  a_ErrorType :: string

definition attrMethodName :: string where "attrMethodName = ''mcp.method.name''"
definition attrToolName :: string where "attrToolName = ''mcp.tool.name''"
definition attrTenantID :: string where "attrTenantID = ''mcp.tenant.id''"
definition attrBackend :: string where "attrBackend = ''mcp.backend.name''"
definition attrErrorType :: string where "attrErrorType = ''error.type''"

definition call_attrs :: "ToolCallAttrs \<Rightarrow> (string \<times> string) list" where
  "call_attrs a =
     [(attrMethodName, a_Method a)]
     @ (if a_Tool a \<noteq> [] then [(attrToolName, a_Tool a)] else [])
     @ (if a_TenantID a \<noteq> [] then [(attrTenantID, a_TenantID a)] else [])
     @ (if a_Backend a \<noteq> [] then [(attrBackend, a_Backend a)] else [])
     @ (if a_ErrorType a \<noteq> [] then [(attrErrorType, a_ErrorType a)] else [])"

definition RecordToolCall :: "ToolCallAttrs \<Rightarrow> Observability \<Rightarrow> Observability" where
  "RecordToolCall a ob = ob\<lparr>opCount := opCount ob @ [call_attrs a]\<rparr>"

definition RecordSession :: "Observability \<Rightarrow> Observability" where
  "RecordSession ob = ob\<lparr>sessionCount := sessionCount ob + 1\<rparr>"

text \<open>Counters that have recorded nothing yet.\<close>

definition new_obs :: Observability where
  "new_obs = \<lparr>opCount = [], sessionCount = 0, metricsListen = [], metricsPath = [], tracerProvider = False\<rparr>"

end
