(* ===== verification/Handler.thy ===== *)
theory Handler
  imports Auth Session Catalog OAuth Observability
begin

text \<open>
  The MCP endpoint (\<^verbatim>\<open>internal/proxy/handler.go\<close>): a request comes in, the state of the proxy (the
  session store, the catalogs, the counters, the goroutines that still have to run, and the outside
  world) is updated, and a response goes out. A response \<open>None\<close> is a run-time panic: the server closes
  the connection without an answer. Requests are handled one after the other.
\<close>

record Handler =
  h_Verifier :: Verifier
  h_Registry :: Registry
  h_ServerCfg :: ServerConfig
  h_AuthCfg :: AuthConfig

definition NewHandler :: "Verifier \<Rightarrow> Registry \<Rightarrow> ServerConfig \<Rightarrow> AuthConfig \<Rightarrow> Handler" where
  "NewHandler v reg serverCfg authCfg =
     \<lparr>h_Verifier = v, h_Registry = reg, h_ServerCfg = serverCfg, h_AuthCfg = authCfg\<rparr>"

record Proxy =
  p_sessions :: Store
  p_catalog :: Catalogs
  p_obs :: Observability
  p_tasks :: "(Tenant \<times> string) list"   \<comment> \<open>spawned teardowns that have not run yet\<close>
  p_io :: io

section \<open>Responses\<close>

definition writeRPCError :: "RawMessage \<Rightarrow> int \<Rightarrow> string \<Rightarrow> hresp \<Rightarrow> hresp" where
  "writeRPCError i code msg w =
     (set_hdr ''Content-Type'' ''application/json'' w)\<lparr>rbody := BJson (jsonRPCErrorBytes i code msg)\<rparr>"

text \<open>The \<open>Content-Type\<close> header followed by \<^verbatim>\<open>writeJSONRPCResult\<close>.\<close>

definition writeResult :: "RawMessage \<Rightarrow> json \<Rightarrow> hresp \<Rightarrow> hresp" where
  "writeResult i result w = writeJSONRPCResult i result (set_hdr ''Content-Type'' ''application/json'' w)"

definition writeBytes :: "string \<Rightarrow> hresp \<Rightarrow> hresp" where
  "writeBytes b w = (set_hdr ''Content-Type'' ''application/json'' w)\<lparr>rbody := BRaw b\<rparr>"

definition statelessize :: "Handler \<Rightarrow> (string, json) gomap \<Rightarrow> (string, json) gomap" where
  "statelessize h result =
     (if AllStateless (h_Registry h) then gomap_set ''resultType'' (JStr ''complete'') result else result)"

definition advertised_version :: "Handler \<Rightarrow> string" where
  "advertised_version h = (if AllStateless (h_Registry h) then ProtocolVersionStateless else ProtocolVersionStateful)"

definition tools_capability :: json where
  "tools_capability = JObj [(''tools'', JObj [(''listChanged'', JBool False)])]"

definition serverInfoResult :: "Handler \<Rightarrow> (string, json) gomap" where
  "serverInfoResult h =
     [(''protocolVersion'', JStr (advertised_version h)),
      (''capabilities'', tools_capability),
      (''serverInfo'', JObj [(''name'', JStr ''mt-mcp-proxy''), (''version'', JStr ''0'')])]"

definition discoverResult :: "Handler \<Rightarrow> (string, json) gomap" where
  "discoverResult h =
     [(''cacheScope'', JStr ''public''),
      (''capabilities'', tools_capability),
      (''resultType'', JStr ''complete''),
      (''supportedVersions'', Marshal_strings [advertised_version h]),
      (''ttlMs'', JNum ''0'')]"

section \<open>initialize and server/discover\<close>

definition handleInitialize :: "Handler \<Rightarrow> env \<Rightarrow> jsonRPCRequest \<Rightarrow> hresp \<Rightarrow> Proxy \<Rightarrow> hresp \<times> Proxy" where
  "handleInitialize h e req w s =
     (let result = Marshal_map (serverInfoResult h); w1 = set_hdr ''Content-Type'' ''application/json'' w in
      if AllStateless (h_Registry h) then (writeJSONRPCResult (rq_ID req) result w1, s)
      else case Mint e (p_sessions s) (p_io s) of
             (sess, st, io) \<Rightarrow>
               (writeJSONRPCResult (rq_ID req) result (set_hdr mcpSessionHeader (s_ID sess) w1),
                s\<lparr>p_sessions := st, p_obs := RecordSession (p_obs s), p_io := io\<rparr>))"

definition handleDiscover :: "Handler \<Rightarrow> jsonRPCRequest \<Rightarrow> hresp \<Rightarrow> hresp" where
  "handleDiscover h req w = writeResult (rq_ID req) (Marshal_map (discoverResult h)) w"

section \<open>tools/list\<close>

record tool_union =
  tu_order :: "string list"
  tu_defs :: "(string, rawTool) gomap"
  tu_having :: "(string, string list) gomap"

definition addTool :: "Tenant \<Rightarrow> rawTool \<Rightarrow> tool_union \<Rightarrow> tool_union" where
  "addTool tenant t u =
     (let name = toolName t;
          u1 = (case map_of (tu_defs u) name of
                  None \<Rightarrow> u\<lparr>tu_order := tu_order u @ [name], tu_defs := gomap_set name t (tu_defs u)\<rparr>
                | Some _ \<Rightarrow> u);
          ids = (case map_of (tu_having u1) name of None \<Rightarrow> [] | Some l \<Rightarrow> l)
      in u1\<lparr>tu_having := gomap_set name (ids @ [t_ID tenant]) (tu_having u1)\<rparr>)"

definition unionTools :: "tenantTools list \<Rightarrow> tool_union" where
  "unionTools views =
     fold (\<lambda>(tenant, tools) u. fold (addTool tenant) tools u) views \<lparr>tu_order = [], tu_defs = [], tu_having = []\<rparr>"

text \<open>A tool as one caller sees it; \<open>n\<close> is the number of tenants the caller is authorized for.\<close>

definition callerTool :: "bool \<Rightarrow> nat \<Rightarrow> tool_union \<Rightarrow> string \<Rightarrow> rawTool" where
  "callerTool discovery n u name =
     (let t = cloneTool (case map_of (tu_defs u) name of None \<Rightarrow> [] | Some t \<Rightarrow> t) in
      if discovery then injectTenantArg t (tenantSchema [] False) False
      else if 2 \<le> n then
        (let ids = (case map_of (tu_having u) name of None \<Rightarrow> [] | Some l \<Rightarrow> l); many = (2 \<le> length ids)
         in injectTenantArg t (tenantSchema ids many) many)
      else t)"

definition handleToolsList ::
    "Handler \<Rightarrow> env \<Rightarrow> jwtlib \<Rightarrow> hreq \<Rightarrow> jsonRPCRequest \<Rightarrow> hresp \<Rightarrow> Proxy \<Rightarrow> hresp \<times> Proxy" where
  "handleToolsList h e lib r req w s =
     (let authorized = (case Groups lib (h_Verifier h) r of
                          Inl _ \<Rightarrow> [] | Inr groups \<Rightarrow> AuthorizedTenants (h_Registry h) groups);
          discovery = (authorized = []);
          tenants = (if discovery then sort_key t_ID (Tenants (h_Registry h)) else authorized)
      in case toolsFor e tenants (p_catalog s) (p_io s) of
           (Inl _, cs, io) \<Rightarrow>
             (writeRPCError (rq_ID req) (- 32603) ''failed to load tool catalog'' w, s\<lparr>p_catalog := cs, p_io := io\<rparr>)
         | (Inr views, cs, io) \<Rightarrow>
             (let u = unionTools views;
                  out = map (callerTool discovery (length authorized) u) (tu_order u) @ [listInstancesToolDef];
                  result = [(''tools'', JArr (map Marshal_map out))]
                    @ (if AllStateless (h_Registry h)
                       then [(''cacheScope'', JStr ''private''), (''resultType'', JStr ''complete''), (''ttlMs'', JNum ''0'')]
                       else [])
              in (writeResult (rq_ID req) (Marshal_map result) w, s\<lparr>p_catalog := cs, p_io := io\<rparr>)))"

section \<open>Choosing the tenant of a call\<close>

definition paramHeadersForCall :: "Catalogs \<Rightarrow> Tenant \<Rightarrow> string \<Rightarrow> RawMessage \<Rightarrow> (string, string) gomap" where
  "paramHeadersForCall cs tenant name args =
     (case fst (cachedTool cs (t_ID tenant) name) of None \<Rightarrow> [] | Some tool \<Rightarrow> paramHeadersForTool tool args)"

definition tenantList :: "Tenant list \<Rightarrow> string" where
  "tenantList tenants = Join (sort (map t_ID tenants)) '', ''"

definition tenantsWithTool :: "Catalogs \<Rightarrow> string \<Rightarrow> Tenant list \<Rightarrow> Tenant list" where
  "tenantsWithTool cs name candidates =
     filter (\<lambda>t. case cachedTool cs (t_ID t) name of (found, known) \<Rightarrow> found \<noteq> None \<or> \<not> known) candidates"

definition unavailable :: "env \<Rightarrow> Catalogs \<Rightarrow> string \<Rightarrow> Tenant \<Rightarrow> Tenant list \<Rightarrow> string" where
  "unavailable e cs name tenant authorized =
     (case cachedTool cs (t_ID tenant) name of (found, known) \<Rightarrow>
        if found \<noteq> None \<or> \<not> known then []
        else (let msg = ''tool '' @ Quote (is_print e) name @ '' is not available for tenant '' @ Quote (is_print e) (t_ID tenant);
                  others = filter (\<lambda>t. t_ID t \<noteq> t_ID tenant) (tenantsWithTool cs name authorized)
              in if others \<noteq> [] then msg @ ''; it is available on: '' @ tenantList others else msg))"

text \<open>\<open>Inl\<close> is the error message for the caller, \<open>Inr\<close> the tenant.\<close>

definition selectTenant ::
    "env \<Rightarrow> Registry \<Rightarrow> Catalogs \<Rightarrow> string \<Rightarrow> RawMessage \<Rightarrow> string list \<Rightarrow> Tenant list \<Rightarrow> string + Tenant" where
  "selectTenant e reg cs name args groups authorized =
     (let explicit = extractTenantArg args in
      if explicit \<noteq> [] then
        (case ResolveTenant reg explicit of
           Inl _ \<Rightarrow> Inl (''unknown tenant '' @ Quote (is_print e) explicit @ ''; choose one of: '' @ tenantList authorized)
         | Inr tenant \<Rightarrow>
             if \<not> IsAuthorized tenant groups
             then Inl (''not authorized for tenant '' @ Quote (is_print e) explicit @ ''; choose one of: '' @ tenantList authorized)
             else (let msg = unavailable e cs name tenant authorized in if msg \<noteq> [] then Inl msg else Inr tenant))
      else case authorized of
             [] \<Rightarrow> Inl ''no instances are authorized for your token''
           | [t] \<Rightarrow> (let msg = unavailable e cs name t authorized in if msg \<noteq> [] then Inl msg else Inr t)
           | _ \<Rightarrow>
               (let candidates = tenantsWithTool cs name authorized in
                case candidates of
                  [] \<Rightarrow> Inl (''tool '' @ Quote (is_print e) name @ '' is not available on any of your instances: '' @ tenantList authorized)
                | [t] \<Rightarrow> Inr t
                | _ \<Rightarrow> Inl (''multiple instances available; pass the '' @ Quote (is_print e) tenantArg
                         @ '' argument, one of: '' @ tenantList candidates)))"

section \<open>Routing a call\<close>

text \<open>The call itself, once the backend session is known; the flag says whether it succeeded.\<close>

definition forwardCall ::
    "env \<Rightarrow> Tenant \<Rightarrow> string \<Rightarrow> RawMessage \<Rightarrow> json \<Rightarrow> (string, string) gomap \<Rightarrow> string \<Rightarrow> hresp \<Rightarrow> Proxy
     \<Rightarrow> (hresp option \<times> bool) \<times> Proxy" where
  "forwardCall e tenant sid i forwardBytes headers name w s =
     (case callTool e (newBackendClient (t_Backend tenant)) sid (EffectiveCredential tenant) forwardBytes headers name (p_io s) of
        (None, io) \<Rightarrow> ((None, False), s\<lparr>p_io := io\<rparr>)
      | (Some (Inl _), io) \<Rightarrow> ((Some (writeRPCError i (- 32003) ''backend call failed'' w), False), s\<lparr>p_io := io\<rparr>)
      | (Some (Inr respBytes), io) \<Rightarrow> ((Some (writeBytes respBytes w), True), s\<lparr>p_io := io\<rparr>))"

definition routeToBackend ::
    "env \<Rightarrow> hreq \<Rightarrow> RawMessage \<Rightarrow> Tenant \<Rightarrow> json \<Rightarrow> string \<Rightarrow> (string, string) gomap \<Rightarrow> hresp \<Rightarrow> Proxy
     \<Rightarrow> (hresp option \<times> bool) \<times> Proxy" where
  "routeToBackend e r i tenant forwardBytes name paramHeaders w s =
     (let client = newBackendClient (t_Backend tenant);
          cred = EffectiveCredential tenant;
          headers = mergeHeaders [t_Headers tenant, paramHeaders]
      in if Stateless (t_Backend tenant) then forwardCall e tenant [] i forwardBytes headers name w s
         else (let proxySID = Header_Get (hheaders r) mcpSessionHeader in
               case Get e proxySID (p_sessions s) (p_io s) of
                 (None, st, io) \<Rightarrow>
                   ((Some (writeRPCError i (- 32000) ''session not found; call initialize first'' w), False),
                    s\<lparr>p_sessions := st, p_io := io\<rparr>)
               | (Some sess, st, io) \<Rightarrow>
                   (case BackendSID sess (t_ID tenant) of
                      Some bsid \<Rightarrow>
                        forwardCall e tenant bsid i forwardBytes headers name w (s\<lparr>p_sessions := st, p_io := io\<rparr>)
                    | None \<Rightarrow>
                        (case initialize e client defaultInitParams cred io of
                           (Inl _, io1) \<Rightarrow>
                             ((Some (writeRPCError i (- 32002) ''failed to open backend session'' w), False),
                              s\<lparr>p_sessions := st, p_io := io1\<rparr>)
                         | (Inr (sid, _), io1) \<Rightarrow>
                             (let io2 = (if sid \<noteq> [] then notifyInitialized e client sid cred io1 else io1)
                              in case SetBackendSID e proxySID (t_ID tenant) sid st io2 of
                                   (st1, io3) \<Rightarrow>
                                     forwardCall e tenant sid i forwardBytes headers name w
                                       (s\<lparr>p_sessions := st1, p_io := io3\<rparr>))))))"

section \<open>tools/call\<close>

definition writeInstances :: "Handler \<Rightarrow> RawMessage \<Rightarrow> Tenant list \<Rightarrow> hresp \<Rightarrow> hresp" where
  "writeInstances h i tenants w =
     (let txt = (if tenants = [] then ''You are not authorized to access any instances.''
                 else ''You are authorized to access the following instances (tenants):'' @ [CHR 0x0A]
                   @ concat (map (\<lambda>t. ''- '' @ t_ID t @ '' (authorized via groups: '' @ Join (t_Groups t) '', '' @ '')'' @ [CHR 0x0A]) tenants))
      in writeResult i (Marshal_map (statelessize h (toolResultText txt False))) w)"

text \<open>The response to a caller whose token was refused, with the error type that is recorded.\<close>

definition authFailure :: "Handler \<Rightarrow> hreq \<Rightarrow> RawMessage \<Rightarrow> auth_error \<Rightarrow> hresp \<Rightarrow> hresp \<times> string" where
  "authFailure h r i err w =
     (let meta = metadataURL (h_ServerCfg h) r; scopes = ScopesSupported (h_AuthCfg h); q = [CHR 0x22] in
      case err of
        ErrInsufficientScope \<Rightarrow>
          (writeHTTPError 403 i (- 32001) ''forbidden: insufficient scope''
             (set_hdr ''WWW-Authenticate''
               (''Bearer error='' @ q @ ''insufficient_scope'' @ q @ '', scope='' @ q @ Join scopes '' '' @ q
                @ '', resource_metadata='' @ q @ meta @ q @ '', error_description='' @ q @ ''insufficient scope'' @ q) w),
           ''insufficient_scope'')
      | ErrUnauthorized _ \<Rightarrow>
          (writeHTTPError 401 i (- 32001) ''unauthorized: a valid token is required for tool calls''
             (set_hdr ''WWW-Authenticate''
               (if scopes \<noteq> [] then ''Bearer resource_metadata='' @ q @ meta @ q @ '', scope='' @ q @ Join scopes '' '' @ q
                else ''Bearer resource_metadata='' @ q @ meta @ q) w),
           ''unauthorized'')
      | OtherError _ \<Rightarrow> (writeHTTPError 500 i (- 32603) ''internal error'' w, ''auth_error''))"

text \<open>
  \<^verbatim>\<open>handleToolsCall\<close> up to its deferred recording: the response and the attributes as they stand when
  the function returns or panics.
\<close>

definition toolsCall ::
    "Handler \<Rightarrow> env \<Rightarrow> jwtlib \<Rightarrow> hreq \<Rightarrow> jsonRPCRequest \<Rightarrow> hresp \<Rightarrow> Proxy \<Rightarrow> (hresp option \<times> ToolCallAttrs) \<times> Proxy" where
  "toolsCall h e lib r req w s =
     (let out = \<lparr>a_Method = ''tools/call'', a_Tool = [], a_TenantID = [], a_Backend = [], a_ErrorType = []\<rparr> in
      case Groups lib (h_Verifier h) r of
        Inl err \<Rightarrow>
          (case authFailure h r (rq_ID req) err w of (w1, typ) \<Rightarrow> ((Some w1, out\<lparr>a_ErrorType := typ\<rparr>), s))
      | Inr groups \<Rightarrow>
          (case Unmarshal_toolCallParams (rq_Params req) of
             Inl _ \<Rightarrow>
               ((Some (writeRPCError (rq_ID req) (- 32602) ''invalid tools/call params'' w),
                 out\<lparr>a_ErrorType := ''invalid_params''\<rparr>), s)
           | Inr params \<Rightarrow>
               (let out1 = out\<lparr>a_Tool := tp_Name params\<rparr>;
                    authorized = AuthorizedTenants (h_Registry h) groups
                in if tp_Name params = listInstancesTool
                   then ((Some (writeInstances h (rq_ID req) authorized w), out1), s)
                   else case selectTenant e (h_Registry h) (p_catalog s) (tp_Name params) (tp_Arguments params) groups authorized of
                          Inl errResult \<Rightarrow>
                            ((Some (writeResult (rq_ID req) (Marshal_map (statelessize h (toolResultText errResult True))) w),
                              out1\<lparr>a_ErrorType := ''tenant_selection''\<rparr>), s)
                        | Inr tenant \<Rightarrow>
                            (let out2 = out1\<lparr>a_TenantID := t_ID tenant, a_Backend := b_Name (t_Backend tenant)\<rparr> in
                             case stripTenantArg (rq_Params req) of
                               Inl _ \<Rightarrow>
                                 ((Some (writeRPCError (rq_ID req) (- 32602) ''invalid arguments'' w),
                                   out2\<lparr>a_ErrorType := ''invalid_params''\<rparr>), s)
                             | Inr cleanParams \<Rightarrow>
                                 (let forwardBytes = Marshal_request \<lparr>rq_JSONRPC = ''2.0'', rq_Method = ''tools/call'',
                                        rq_Params = cleanParams, rq_ID = rq_ID req\<rparr>;
                                      paramHeaders = paramHeadersForCall (p_catalog s) tenant (tp_Name params) (tp_Arguments params)
                                  in case routeToBackend e r (rq_ID req) tenant forwardBytes (tp_Name params) paramHeaders w s of
                                       ((resp, ok), s1) \<Rightarrow>
                                         ((resp, if ok \<or> resp = None then out2 else out2\<lparr>a_ErrorType := ''backend_error''\<rparr>), s1))))))"

definition handleToolsCall ::
    "Handler \<Rightarrow> env \<Rightarrow> jwtlib \<Rightarrow> hreq \<Rightarrow> jsonRPCRequest \<Rightarrow> hresp \<Rightarrow> Proxy \<Rightarrow> hresp option \<times> Proxy" where
  "handleToolsCall h e lib r req w s =
     (case toolsCall h e lib r req w s of
        ((resp, out), s1) \<Rightarrow> (resp, s1\<lparr>p_obs := RecordToolCall out (p_obs s1)\<rparr>))"

section \<open>DELETE\<close>

definition handleDelete :: "Handler \<Rightarrow> hreq \<Rightarrow> Proxy \<Rightarrow> hresp \<times> Proxy" where
  "handleDelete h r s =
     (if AllStateless (h_Registry h) then (new_resp\<lparr>rstatus := 204\<rparr>, s)
      else (let proxySID = Header_Get (hheaders r) mcpSessionHeader in
            case Delete proxySID (p_sessions s) of
              (None, st) \<Rightarrow> (new_resp\<lparr>rstatus := 204\<rparr>, s\<lparr>p_sessions := st\<rparr>)
            | (Some sess, st) \<Rightarrow>
                (let spawned = concat (map (\<lambda>t. case BackendSID sess (t_ID t) of
                                                   None \<Rightarrow> []
                                                 | Some bsid \<Rightarrow> if bsid \<noteq> [] then [(t, bsid)] else []) (Tenants (h_Registry h)))
                 in (new_resp\<lparr>rstatus := 204\<rparr>, s\<lparr>p_sessions := st, p_tasks := p_tasks s @ spawned\<rparr>))))"

definition teardownBackend :: "env \<Rightarrow> Tenant \<Rightarrow> string \<Rightarrow> io \<Rightarrow> io" where
  "teardownBackend e t bsid w =
     (let client = newBackendClient (t_Backend t) in
      case NewRequest ''DELETE'' (url_String (b_URL (t_Backend t))) None of
        Inl _ \<Rightarrow> w
      | Inr req \<Rightarrow>
          (let req1 = req\<lparr>bheaders := Header_Set mcpSessionHeader bsid (bheaders req)\<rparr>;
               req2 = applyAuth client req1 (EffectiveCredential t) []
           in snd (http_Do e req2 w)))"

text \<open>The scheduler runs one of the spawned goroutines.\<close>

definition run_task :: "env \<Rightarrow> nat \<Rightarrow> Proxy \<Rightarrow> Proxy" where
  "run_task e i s =
     (if i < length (p_tasks s)
      then (case p_tasks s ! i of (t, bsid) \<Rightarrow>
              s\<lparr>p_tasks := take i (p_tasks s) @ drop (Suc i) (p_tasks s), p_io := teardownBackend e t bsid (p_io s)\<rparr>)
      else s)"

section \<open>The endpoint\<close>

definition WarmCatalog :: "env \<Rightarrow> Proxy \<Rightarrow> string list \<times> Proxy" where
  "WarmCatalog e s = (case warm e (p_catalog s) (p_io s) of (errs, cs, io) \<Rightarrow> (errs, s\<lparr>p_catalog := cs, p_io := io\<rparr>))"

definition handlePost :: "Handler \<Rightarrow> env \<Rightarrow> jwtlib \<Rightarrow> hreq \<Rightarrow> Proxy \<Rightarrow> hresp option \<times> Proxy" where
  "handlePost h e lib r s =
     (if hread_err r then (Some (writeRPCError None (- 32700) ''failed to read request body'' new_resp), s)
      else case Unmarshal_request_text (hbody r) of
             Inl _ \<Rightarrow> (Some (writeRPCError None (- 32700) ''parse error'' new_resp), s)
           | Inr req \<Rightarrow>
               (let w = (if AllStateless (h_Registry h)
                         then set_hdr mcpProtocolVersionHeader ProtocolVersionStateless new_resp else new_resp)
                in if rq_Method req = ''initialize''
                   then (case handleInitialize h e req w s of (w1, s1) \<Rightarrow> (Some w1, s1))
                   else if rq_Method req = ''notifications/initialized'' then (Some (w\<lparr>rstatus := 202\<rparr>), s)
                   else if rq_Method req = ''server/discover'' then (Some (handleDiscover h req w), s)
                   else if rq_Method req = ''tools/list''
                   then (case handleToolsList h e lib r req w s of (w1, s1) \<Rightarrow> (Some w1, s1))
                   else if rq_Method req = ''tools/call'' then handleToolsCall h e lib r req w s
                   else if rq_Method req = ''ping''
                   then (Some (writeResult (rq_ID req) (Marshal_map (statelessize h [])) w), s)
                   else if isNotification req then (Some (w\<lparr>rstatus := 202\<rparr>), s)
                   else (Some (writeRPCError (rq_ID req) (- 32601) (''method not found: '' @ rq_Method req) w), s)))"

definition ServeHTTP :: "Handler \<Rightarrow> env \<Rightarrow> jwtlib \<Rightarrow> hreq \<Rightarrow> Proxy \<Rightarrow> hresp option \<times> Proxy" where
  "ServeHTTP h e lib r s =
     (if hmethod r = ''DELETE'' then (case handleDelete h r s of (w, s1) \<Rightarrow> (Some w, s1))
      else if hmethod r = ''GET'' then (Some (set_hdr ''Content-Type'' ''text/event-stream'' new_resp), s)
      else if hmethod r = ''POST'' then handlePost h e lib r s
      else (Some ((set_hdr ''X-Content-Type-Options'' ''nosniff''
              (set_hdr ''Content-Type'' ''text/plain; charset=utf-8'' new_resp))
                \<lparr>rstatus := 405, rbody := BRaw (''method not allowed'' @ [CHR 0x0A])\<rparr>), s))"

end
