(* ===== verification/Routing.thy ===== *)
theory Routing
  imports Handler
begin

text \<open>
  How a call finds its tenant and where its requests go: the selection of a tenant as a relation on
  the caller's tenants and the cached tools, and the requests and state changes of every handler.
\<close>

section \<open>Selection\<close>

abbreviation may_have :: "Catalogs \<Rightarrow> string \<Rightarrow> Tenant \<Rightarrow> bool" where
  "may_have cs name t \<equiv> tools.may_have cs (t_ID t) name"

lemma found_iff: "(case cachedTool cs i name of (found, known) \<Rightarrow> found \<noteq> None \<or> \<not> known) \<longleftrightarrow> tools.may_have cs i name"
  using tools.found_or_unknown [of cs i name] by (simp add: case_prod_beta)

lemma tenantsWithTool_filter: "tenantsWithTool cs name ts = filter (may_have cs name) ts"
  unfolding tenantsWithTool_def by (simp only: found_iff)

lemma unavailable_iff: "unavailable e cs name t authorized = [] \<longleftrightarrow> may_have cs name t"
  using found_iff [of cs "t_ID t" name]
  by (cases "cachedTool cs (t_ID t) name") (simp add: unavailable_def Let_def)

lemma Authorized_resolve:
  assumes "reg_wf reg"
  shows "t \<in> set (AuthorizedTenants reg groups) \<and> t_ID t = i \<longleftrightarrow> ResolveTenant reg i = Inr t \<and> IsAuthorized t groups"
  using Resolve_member [OF assms] Resolve_known [OF assms] by (auto simp: set_AuthorizedTenants)

lemma selectTenant_Inr:
  assumes "reg_wf reg"
  shows "selectTenant e reg cs name args groups (AuthorizedTenants reg groups) = Inr t \<longleftrightarrow>
    (if extractTenantArg args \<noteq> []
     then t \<in> set (AuthorizedTenants reg groups) \<and> t_ID t = extractTenantArg args \<and> may_have cs name t
     else filter (may_have cs name) (AuthorizedTenants reg groups) = [t])"
proof (cases "extractTenantArg args = []")
  case False
  let ?x = "extractTenantArg args"
  show ?thesis
  proof (cases "ResolveTenant reg ?x")
    case (Inl err)
    with Authorized_resolve [OF assms, of t groups ?x] False show ?thesis by (auto simp: selectTenant_def)
  next
    case (Inr u)
    with Authorized_resolve [OF assms, of t groups ?x] False show ?thesis
      by (auto simp: selectTenant_def Let_def unavailable_iff)
  qed
next
  case True
  show ?thesis
  proof (cases "AuthorizedTenants reg groups")
    case Nil
    with True show ?thesis by (simp add: selectTenant_def)
  next
    case (Cons a as)
    show ?thesis
    proof (cases as)
      case Nil
      with Cons True show ?thesis by (auto simp: selectTenant_def Let_def unavailable_iff)
    next
      case (Cons b bs)
      with \<open>AuthorizedTenants reg groups = a # as\<close> True
      have "selectTenant e reg cs name args groups (AuthorizedTenants reg groups) = Inr t \<longleftrightarrow>
          (case filter (may_have cs name) (AuthorizedTenants reg groups) of [u] \<Rightarrow> u = t | _ \<Rightarrow> False)"
        by (simp add: selectTenant_def Let_def tenantsWithTool_filter del: filter.simps split: list.split)
      with True show ?thesis by (auto split: list.splits simp del: filter.simps)
    qed
  qed
qed


section \<open>What a call sends\<close>

text \<open>The requests a caller with these groups may cause: to the backend of a tenant it is authorized for,
  authenticated as that tenant.\<close>

definition authorized_request :: "env \<Rightarrow> Registry \<Rightarrow> string list \<Rightarrow> breq \<Rightarrow> bool" where
  "authorized_request e reg groups q \<longleftrightarrow>
     (\<exists>t \<in> set (Tenants reg). IsAuthorized t groups \<and> backend_request e (t_Backend t) (EffectiveCredential t) q)"

abbreviation tenant_request :: "env \<Rightarrow> Tenant \<Rightarrow> breq \<Rightarrow> bool" where
  "tenant_request e t \<equiv> backend_request e (t_Backend t) (EffectiveCredential t)"

lemma forwardCall_io:
  "p_io (snd (forwardCall e t sid i b hs n w s)) =
     snd (callTool e (newBackendClient (t_Backend t)) sid (EffectiveCredential t) b hs n (p_io s))"
  by (simp add: forwardCall_def split: prod.split option.split sum.split)

lemma forwardCall_frame:
  "p_sessions (snd (forwardCall e t sid i b hs n w s)) = p_sessions s
   \<and> p_catalog (snd (forwardCall e t sid i b hs n w s)) = p_catalog s
   \<and> p_obs (snd (forwardCall e t sid i b hs n w s)) = p_obs s
   \<and> p_tasks (snd (forwardCall e t sid i b hs n w s)) = p_tasks s"
  by (simp add: forwardCall_def split: prod.split option.split sum.split)

lemma forwardCall_sends: "sends (tenant_request e t) (p_io s) (p_io (snd (forwardCall e t sid i b hs n w s)))"
  unfolding forwardCall_io by (rule sends_callTool)

text \<open>Routing a call as equations, one for each way it can go.\<close>

definition opened :: "env \<Rightarrow> Tenant \<Rightarrow> string \<Rightarrow> io \<Rightarrow> io" where
  "opened e t sid w =
     (if sid \<noteq> [] then notifyInitialized e (newBackendClient (t_Backend t)) sid (EffectiveCredential t) w else w)"

lemma routeToBackend_stateless:
  "Stateless (t_Backend t) \<Longrightarrow>
   routeToBackend e r i t b n ph w s = forwardCall e t [] i b (mergeHeaders [t_Headers t, ph]) n w s"
  by (simp add: routeToBackend_def Let_def)

lemma routeToBackend_unknown:
  "\<not> Stateless (t_Backend t) \<Longrightarrow>
   Get e (Header_Get (hheaders r) mcpSessionHeader) (p_sessions s) (p_io s) = (None, st, io) \<Longrightarrow>
   routeToBackend e r i t b n ph w s =
     ((Some (writeRPCError i (- 32000) ''session not found; call initialize first'' w), False), s\<lparr>p_sessions := st, p_io := io\<rparr>)"
  by (simp add: routeToBackend_def Let_def)

lemma routeToBackend_bound:
  "\<not> Stateless (t_Backend t) \<Longrightarrow>
   Get e (Header_Get (hheaders r) mcpSessionHeader) (p_sessions s) (p_io s) = (Some sess, st, io) \<Longrightarrow>
   BackendSID sess (t_ID t) = Some sid \<Longrightarrow>
   routeToBackend e r i t b n ph w s =
     forwardCall e t sid i b (mergeHeaders [t_Headers t, ph]) n w (s\<lparr>p_sessions := st, p_io := io\<rparr>)"
  by (simp add: routeToBackend_def Let_def)

lemma routeToBackend_failed:
  "\<not> Stateless (t_Backend t) \<Longrightarrow>
   Get e (Header_Get (hheaders r) mcpSessionHeader) (p_sessions s) (p_io s) = (Some sess, st, io) \<Longrightarrow>
   BackendSID sess (t_ID t) = None \<Longrightarrow>
   initialize e (newBackendClient (t_Backend t)) defaultInitParams (EffectiveCredential t) io = (Inl err, io1) \<Longrightarrow>
   routeToBackend e r i t b n ph w s =
     ((Some (writeRPCError i (- 32002) ''failed to open backend session'' w), False), s\<lparr>p_sessions := st, p_io := io1\<rparr>)"
  by (simp add: routeToBackend_def Let_def)

lemma routeToBackend_open:
  "\<not> Stateless (t_Backend t) \<Longrightarrow>
   Get e (Header_Get (hheaders r) mcpSessionHeader) (p_sessions s) (p_io s) = (Some sess, st, io) \<Longrightarrow>
   BackendSID sess (t_ID t) = None \<Longrightarrow>
   initialize e (newBackendClient (t_Backend t)) defaultInitParams (EffectiveCredential t) io = (Inr (sid, res), io1) \<Longrightarrow>
   routeToBackend e r i t b n ph w s =
     (let x = SetBackendSID e (Header_Get (hheaders r) mcpSessionHeader) (t_ID t) sid st (opened e t sid io1)
      in forwardCall e t sid i b (mergeHeaders [t_Headers t, ph]) n w (s\<lparr>p_sessions := fst x, p_io := snd x\<rparr>))"
  by (simp add: routeToBackend_def opened_def Let_def split: prod.split)

lemmas routeToBackend_eqs = routeToBackend_stateless routeToBackend_unknown routeToBackend_bound
  routeToBackend_failed routeToBackend_open

text \<open>The ways a call can go.\<close>

lemma route_cases:
  obtains (stateless) "Stateless (t_Backend t)"
  | (unknown) st io where "\<not> Stateless (t_Backend t)" "Get e (Header_Get (hheaders r) mcpSessionHeader) (p_sessions s) (p_io s) = (None, st, io)"
  | (bound) sess st io sid where "\<not> Stateless (t_Backend t)"
      "Get e (Header_Get (hheaders r) mcpSessionHeader) (p_sessions s) (p_io s) = (Some sess, st, io)" "BackendSID sess (t_ID t) = Some sid"
  | (failed) sess st io err io1 where "\<not> Stateless (t_Backend t)"
      "Get e (Header_Get (hheaders r) mcpSessionHeader) (p_sessions s) (p_io s) = (Some sess, st, io)" "BackendSID sess (t_ID t) = None"
      "initialize e (newBackendClient (t_Backend t)) defaultInitParams (EffectiveCredential t) io = (Inl err, io1)"
  | (opened) sess st io sid res io1 where "\<not> Stateless (t_Backend t)"
      "Get e (Header_Get (hheaders r) mcpSessionHeader) (p_sessions s) (p_io s) = (Some sess, st, io)" "BackendSID sess (t_ID t) = None"
      "initialize e (newBackendClient (t_Backend t)) defaultInitParams (EffectiveCredential t) io = (Inr (sid, res), io1)"
proof (cases "Stateless (t_Backend t)")
  case False
  obtain o' st io where g: "Get e (Header_Get (hheaders r) mcpSessionHeader) (p_sessions s) (p_io s) = (o', st, io)"
    by (metis prod_cases3)
  show thesis
  proof (cases o')
    case None
    with False g that(2) show thesis by blast
  next
    case (Some sess)
    show thesis
    proof (cases "BackendSID sess (t_ID t)")
      case None
      obtain x io1 where i: "initialize e (newBackendClient (t_Backend t)) defaultInitParams (EffectiveCredential t) io = (x, io1)"
        by (cases "initialize e (newBackendClient (t_Backend t)) defaultInitParams (EffectiveCredential t) io")
      show thesis
      proof (cases x)
        case (Inl err)
        with False g Some None i that(4) show thesis by blast
      next
        case (Inr y)
        with False g Some None i that(5) show thesis by (metis prod.collapse)
      qed
    next
      case (Some sid)
      with False g \<open>o' = Some sess\<close> that(3) show thesis by blast
    qed
  qed
qed (rule that(1))

lemma sends_opened: "sends (tenant_request e t) w (opened e t sid w)"
  by (simp add: opened_def sends_notify)

lemma Get_sends: "Get e i st w = (x, st', w') \<Longrightarrow> sends P w w'"
  using store_sent(2) [of e i st w] by (simp add: sends_same)

lemma initialize_sends:
  "initialize e (newBackendClient (t_Backend t)) p (EffectiveCredential t) w = (x, w') \<Longrightarrow> sends (tenant_request e t) w w'"
  using sends_initialize [of e "t_Backend t" "EffectiveCredential t" w p] by simp

lemma routeToBackend_sends: "sends (tenant_request e t) (p_io s) (p_io (snd (routeToBackend e r i t b n ph w s)))"
proof (cases rule: route_cases [where t = t and e = e and r = r and s = s])
  case stateless
  then show ?thesis by (simp add: routeToBackend_stateless forwardCall_sends)
next
  case (unknown st io)
  then show ?thesis by (simp add: routeToBackend_unknown Get_sends)
next
  case (bound sess st io sid)
  have "sends (tenant_request e t) (p_io s) io" using bound(2) by (rule Get_sends)
  also have "sends (tenant_request e t) io (p_io (snd (routeToBackend e r i t b n ph w s)))"
    using forwardCall_sends [of e t "s\<lparr>p_sessions := st, p_io := io\<rparr>"] by (simp add: routeToBackend_bound [OF bound])
  finally show ?thesis .
next
  case (failed sess st io err io1)
  have "sends (tenant_request e t) (p_io s) io" using failed(2) by (rule Get_sends)
  also have "sends (tenant_request e t) io io1" using failed(4) by (rule initialize_sends)
  finally show ?thesis by (simp add: routeToBackend_failed [OF failed])
next
  case (opened sess st io sid res io1)
  let ?x = "SetBackendSID e (Header_Get (hheaders r) mcpSessionHeader) (t_ID t) sid st (Routing.opened e t sid io1)"
  have "sends (tenant_request e t) (p_io s) io" using opened(2) by (rule Get_sends)
  also have "sends (tenant_request e t) io io1" using opened(4) by (rule initialize_sends)
  also have "sends (tenant_request e t) io1 (Routing.opened e t sid io1)" by (rule sends_opened)
  also have "sends (tenant_request e t) \<dots> (snd ?x)" by (rule sends_same) simp
  also have "sends (tenant_request e t) (snd ?x) (p_io (snd (routeToBackend e r i t b n ph w s)))"
    using forwardCall_sends [of e t "s\<lparr>p_sessions := fst ?x, p_io := snd ?x\<rparr>"]
    by (simp add: routeToBackend_open [OF opened] Let_def)
  finally show ?thesis .
qed

section \<open>The routed call\<close>

text \<open>What a \<open>tools/call\<close> is routed to, when it is routed at all: the caller's groups, the tenant, the
  decoded params and the params that are forwarded.\<close>

definition routed ::
    "Handler \<Rightarrow> env \<Rightarrow> jwtlib \<Rightarrow> hreq \<Rightarrow> jsonRPCRequest \<Rightarrow> Catalogs \<Rightarrow> (string list \<times> Tenant \<times> toolCallParams \<times> RawMessage) option" where
  "routed h e lib r req cs =
     (case Groups lib (h_Verifier h) r of
        Inl _ \<Rightarrow> None
      | Inr groups \<Rightarrow>
          (case Unmarshal_toolCallParams (rq_Params req) of
             Inl _ \<Rightarrow> None
           | Inr p \<Rightarrow>
               if tp_Name p = listInstancesTool then None
               else (case selectTenant e (h_Registry h) cs (tp_Name p) (tp_Arguments p) groups
                           (AuthorizedTenants (h_Registry h) groups) of
                       Inl _ \<Rightarrow> None
                     | Inr t \<Rightarrow> (case stripTenantArg (rq_Params req) of Inl _ \<Rightarrow> None | Inr c \<Rightarrow> Some (groups, t, p, c)))))"

definition route ::
    "env \<Rightarrow> hreq \<Rightarrow> jsonRPCRequest \<Rightarrow> Tenant \<Rightarrow> toolCallParams \<Rightarrow> RawMessage \<Rightarrow> hresp \<Rightarrow> Proxy \<Rightarrow> (hresp option \<times> bool) \<times> Proxy" where
  "route e r req t p c w s =
     routeToBackend e r (rq_ID req) t
       (Marshal_request \<lparr>rq_JSONRPC = ''2.0'', rq_Method = ''tools/call'', rq_Params = c, rq_ID = rq_ID req\<rparr>)
       (tp_Name p) (paramHeadersForCall (p_catalog s) t (tp_Name p) (tp_Arguments p)) w s"

lemma toolsCall_unrouted:
  "routed h e lib r req (p_catalog s) = None \<Longrightarrow>
   snd (toolsCall h e lib r req w s) = s \<and> fst (fst (toolsCall h e lib r req w s)) \<noteq> None"
  by (auto simp: toolsCall_def routed_def Let_def split: sum.splits if_splits prod.splits)

lemma toolsCall_routed:
  assumes "routed h e lib r req (p_catalog s) = Some (g, t, p, c)"
  shows "snd (toolsCall h e lib r req w s) = snd (route e r req t p c w s)"
    and "fst (fst (toolsCall h e lib r req w s)) = fst (fst (route e r req t p c w s))"
    and "a_TenantID (snd (fst (toolsCall h e lib r req w s))) = t_ID t"
    and "a_Tool (snd (fst (toolsCall h e lib r req w s))) = tp_Name p"
    and "a_Backend (snd (fst (toolsCall h e lib r req w s))) = b_Name (t_Backend t)"
    and "a_ErrorType (snd (fst (toolsCall h e lib r req w s))) =
      (if snd (fst (route e r req t p c w s)) \<or> fst (fst (route e r req t p c w s)) = None then [] else ''backend_error'')"
  using assms
  by (auto simp: toolsCall_def routed_def route_def Let_def split: sum.splits if_splits prod.splits)

lemma toolsCall_attrs:
  assumes "routed h e lib r req (p_catalog s) = Some (g, t, p, c)"
  shows "snd (fst (toolsCall h e lib r req w s)) =
    \<lparr>a_Method = ''tools/call'', a_Tool = tp_Name p, a_TenantID = t_ID t, a_Backend = b_Name (t_Backend t),
     a_ErrorType = (if snd (fst (route e r req t p c w s)) \<or> fst (fst (route e r req t p c w s)) = None
                    then [] else ''backend_error'')\<rparr>"
  using assms
  by (auto simp: toolsCall_def routed_def route_def Let_def split: sum.splits if_splits prod.splits)

lemma routed_SomeD:
  assumes "routed h e lib r req cs = Some (g, t, p, c)"
  shows "Groups lib (h_Verifier h) r = Inr g" and "Unmarshal_toolCallParams (rq_Params req) = Inr p"
    and "tp_Name p \<noteq> listInstancesTool" and "stripTenantArg (rq_Params req) = Inr c"
    and "selectTenant e (h_Registry h) cs (tp_Name p) (tp_Arguments p) g (AuthorizedTenants (h_Registry h) g) = Inr t"
  using assms by (auto simp: routed_def split: sum.splits if_splits)

lemma routed_tenant:
  assumes "reg_wf (h_Registry h)" and "routed h e lib r req cs = Some (g, t, p, c)"
  shows "t \<in> set (Tenants (h_Registry h)) \<and> IsAuthorized t g \<and> may_have cs (tp_Name p) t"
proof -
  have "t \<in> set (AuthorizedTenants (h_Registry h) g) \<and> may_have cs (tp_Name p) t"
    using routed_SomeD(5) [OF assms(2), unfolded selectTenant_Inr [OF assms(1)]] filter_eq_singleton_mem
    by (auto split: if_splits dest: filter_eq_singleton_mem)
  then show ?thesis by (simp add: set_AuthorizedTenants)
qed

lemma authorized_requestI:
  "t \<in> set (Tenants reg) \<Longrightarrow> IsAuthorized t g \<Longrightarrow> tenant_request e t q \<Longrightarrow> authorized_request e reg g q"
  unfolding authorized_request_def by blast

text \<open>The state after a call: nothing but the counters when it is not routed.\<close>

lemma handleToolsCall_state:
  "snd (handleToolsCall h e lib r req w s) =
     (let s1 = snd (toolsCall h e lib r req w s)
      in s1\<lparr>p_obs := RecordToolCall (snd (fst (toolsCall h e lib r req w s))) (p_obs s1)\<rparr>)"
  by (simp add: handleToolsCall_def Let_def split: prod.split)

lemma handleToolsCall_resp: "fst (handleToolsCall h e lib r req w s) = fst (fst (toolsCall h e lib r req w s))"
  by (simp add: handleToolsCall_def split: prod.split)

lemma handleToolsCall_sends:
  assumes "reg_wf (h_Registry h)" and "Groups lib (h_Verifier h) r = Inr groups"
  shows "sends (authorized_request e (h_Registry h) groups) (p_io s) (p_io (snd (handleToolsCall h e lib r req w s)))"
proof (cases "routed h e lib r req (p_catalog s)")
  case None
  then show ?thesis by (simp add: handleToolsCall_state Let_def toolsCall_unrouted)
next
  case (Some x)
  then obtain g t p c where x: "routed h e lib r req (p_catalog s) = Some (g, t, p, c)" by (cases x) auto
  then have "g = groups" using routed_SomeD(1) assms(2) by fastforce
  with routed_tenant [OF assms(1) x] have "t \<in> set (Tenants (h_Registry h))" "IsAuthorized t groups" by auto
  then have "sends (authorized_request e (h_Registry h) groups) (p_io s) (p_io (snd (route e r req t p c w s)))"
    unfolding route_def by (intro sends_mono [OF routeToBackend_sends] authorized_requestI)
  then show ?thesis by (simp add: handleToolsCall_state Let_def toolsCall_routed(1) [OF x])
qed

lemma handleToolsCall_refused:
  assumes "Groups lib (h_Verifier h) r = Inl err"
  shows "\<exists>ob. snd (handleToolsCall h e lib r req w s) = s\<lparr>p_obs := ob\<rparr>"
    and "\<exists>w1. fst (handleToolsCall h e lib r req w s) = Some w1 \<and> rstatus w1 \<in> {401, 403}"
proof -
  have "routed h e lib r req (p_catalog s) = None" using assms by (simp add: routed_def)
  then show "\<exists>ob. snd (handleToolsCall h e lib r req w s) = s\<lparr>p_obs := ob\<rparr>"
    by (auto simp: handleToolsCall_state toolsCall_unrouted Let_def)
  from assms show "\<exists>w1. fst (handleToolsCall h e lib r req w s) = Some w1 \<and> rstatus w1 \<in> {401, 403}"
    by (rule verifier.error_cases)
      (auto simp: handleToolsCall_resp toolsCall_def assms authFailure_def writeHTTPError_def Let_def)
qed

text \<open>The state changes of a call: tasks and catalogs are never touched.\<close>

lemma routeToBackend_frame:
  "p_catalog (snd (routeToBackend e r i t b n ph w s)) = p_catalog s
   \<and> p_tasks (snd (routeToBackend e r i t b n ph w s)) = p_tasks s
   \<and> p_obs (snd (routeToBackend e r i t b n ph w s)) = p_obs s"
  by (cases rule: route_cases [where t = t and e = e and r = r and s = s])
    (auto simp: routeToBackend_eqs forwardCall_frame Let_def)

lemma handleToolsCall_frame:
  "p_catalog (snd (handleToolsCall h e lib r req w s)) = p_catalog s
   \<and> p_tasks (snd (handleToolsCall h e lib r req w s)) = p_tasks s"
proof (cases "routed h e lib r req (p_catalog s)")
  case None
  then show ?thesis by (simp add: handleToolsCall_state Let_def toolsCall_unrouted)
next
  case (Some x)
  then obtain g t p c where "routed h e lib r req (p_catalog s) = Some (g, t, p, c)" by (cases x) auto
  then show ?thesis
    by (simp add: handleToolsCall_state Let_def toolsCall_routed route_def routeToBackend_frame)
qed

section \<open>Selection and confinement\<close>

text \<open>C4. A call gets a tenant exactly when it may: with a tenant argument, when that tenant is registered,
  authorized for the caller's groups and not known to lack the tool; without one, when exactly one of
  the caller's tenants may have the tool, and then it is that one. In every other case the caller gets
  an error message and no tenant.\<close>

theorem selectTenant_exact:
  assumes "reg_wf reg"
  shows "selectTenant e reg cs name args groups (AuthorizedTenants reg groups) = Inr t \<longleftrightarrow>
    (if extractTenantArg args \<noteq> []
     then t \<in> set (Tenants reg) \<and> IsAuthorized t groups \<and> t_ID t = extractTenantArg args \<and> may_have cs name t
     else filter (may_have cs name) (AuthorizedTenants reg groups) = [t])"
  using selectTenant_Inr [OF assms] by (simp add: set_AuthorizedTenants)

theorem selectTenant_exact_witness:
  "case selectTenant quiet_env demo_registry (NewCatalogs demo_registry 5) ''f''
      (Some (JObj [(''tenant'', JStr ''corp'')])) [''dev''] (AuthorizedTenants demo_registry [''dev'']) of
     Inr t \<Rightarrow> t_ID t = ''corp'' \<and> IsAuthorized t [''dev'']
   | Inl _ \<Rightarrow> False"
proof -
  let ?x = "selectTenant quiet_env demo_registry (NewCatalogs demo_registry 5) ''f''
      (Some (JObj [(''tenant'', JStr ''corp'')])) [''dev''] (AuthorizedTenants demo_registry [''dev''])"
  have "case ?x of Inr t \<Rightarrow> True | Inl _ \<Rightarrow> False" by code_simp
  then obtain t where t: "?x = Inr t" by (auto split: sum.splits)
  have "extractTenantArg (Some (JObj [(''tenant'', JStr ''corp'')])) = ''corp''" by code_simp
  with selectTenant_exact [OF demo_registry_wf, THEN iffD1, OF t] t show ?thesis by simp
qed


text \<open>A proxy for three tenants, and a call of a caller in the groups \<open>dev\<close> and \<open>ops\<close>.\<close>

definition demo_handler :: Handler where
  "demo_handler = \<lparr>h_Verifier = example_verifier, h_Registry = demo_registry,
     h_ServerCfg = \<lparr>Listen = '':8080'', Path = ''/mcp'', ExternalURL = []\<rparr>, h_AuthCfg = example_auth\<rparr>"

definition demo_state :: Proxy where
  "demo_state = \<lparr>p_sessions = NewStore 100, p_catalog = NewCatalogs demo_registry 5, p_obs = new_obs, p_tasks = [],
     p_io = init_io\<rparr>"

definition demo_call :: jsonRPCRequest where
  "demo_call = \<lparr>rq_JSONRPC = ''2.0'', rq_Method = ''tools/call'',
     rq_Params = Some (JObj [(''name'', JStr ''f''), (''arguments'', JObj [(''tenant'', JStr ''acme''), (''q'', JNum ''1'')])]),
     rq_ID = Some (JNum ''7'')\<rparr>"


end
