(* ===== verification/Calls.thy ===== *)
theory Calls
  imports Routing
begin

text \<open>
  A \<open>tools/call\<close> in small steps. The handler of a call holds no lock while it talks to a backend, so other
  requests run between its accesses to the session store and its requests to the backend. One step is
  what happens without interruption: one operation on the store or one request to the backend. The
  handler as one function, as Handler has it, is the run of these steps without interruption.
\<close>

section \<open>The steps of a call\<close>

text \<open>What the handler of a call knows once the call is routed.\<close>

record Call =
  c_request :: hreq
  c_id :: RawMessage
  c_tenant :: Tenant
  c_bytes :: json
  c_name :: string
  c_headers :: "(string, string) gomap"
  c_attrs :: ToolCallAttrs
  c_resp :: hresp

text \<open>Where it is: looking up the session, opening a backend session, confirming it, recording it, calling
  the tool, recording the call, and done. A response \<open>None\<close> is a panic.\<close>

datatype pc =
    Lookup
  | Open
  | Confirm string
  | Bind string
  | Forward string
  | Record "hresp option" bool
  | Done "hresp option"

definition begin_call :: "Handler \<Rightarrow> env \<Rightarrow> jwtlib \<Rightarrow> hreq \<Rightarrow> jsonRPCRequest \<Rightarrow> hresp \<Rightarrow> Proxy \<Rightarrow> Call option" where
  "begin_call h e lib r req w s =
     (case routed h e lib r req (p_catalog s) of
        None \<Rightarrow> None
      | Some (groups, t, p, c) \<Rightarrow>
          Some \<lparr>c_request = r, c_id = rq_ID req, c_tenant = t,
            c_bytes = Marshal_request \<lparr>rq_JSONRPC = ''2.0'', rq_Method = ''tools/call'', rq_Params = c, rq_ID = rq_ID req\<rparr>,
            c_name = tp_Name p,
            c_headers = mergeHeaders [t_Headers t, paramHeadersForCall (p_catalog s) t (tp_Name p) (tp_Arguments p)],
            c_attrs = \<lparr>a_Method = ''tools/call'', a_Tool = tp_Name p, a_TenantID = t_ID t,
              a_Backend = b_Name (t_Backend t), a_ErrorType = []\<rparr>,
            c_resp = w\<rparr>)"

fun call_step :: "env \<Rightarrow> Call \<Rightarrow> pc \<Rightarrow> Proxy \<Rightarrow> pc \<times> Proxy" where
  "call_step e c Lookup s =
     (if Stateless (t_Backend (c_tenant c)) then (Forward [], s)
      else case Get e (Header_Get (hheaders (c_request c)) mcpSessionHeader) (p_sessions s) (p_io s) of
             (None, st, io) \<Rightarrow>
               (Record (Some (writeRPCError (c_id c) (- 32000) ''session not found; call initialize first'' (c_resp c))) False,
                s\<lparr>p_sessions := st, p_io := io\<rparr>)
           | (Some sess, st, io) \<Rightarrow>
               (case BackendSID sess (t_ID (c_tenant c)) of
                  Some sid \<Rightarrow> (Forward sid, s\<lparr>p_sessions := st, p_io := io\<rparr>)
                | None \<Rightarrow> (Open, s\<lparr>p_sessions := st, p_io := io\<rparr>)))"
| "call_step e c Open s =
     (case initialize e (newBackendClient (t_Backend (c_tenant c))) defaultInitParams (EffectiveCredential (c_tenant c)) (p_io s) of
        (Inl _, io) \<Rightarrow>
          (Record (Some (writeRPCError (c_id c) (- 32002) ''failed to open backend session'' (c_resp c))) False, s\<lparr>p_io := io\<rparr>)
      | (Inr (sid, _), io) \<Rightarrow> (if sid \<noteq> [] then Confirm sid else Bind sid, s\<lparr>p_io := io\<rparr>))"
| "call_step e c (Confirm sid) s =
     (Bind sid, s\<lparr>p_io := notifyInitialized e (newBackendClient (t_Backend (c_tenant c))) sid
                            (EffectiveCredential (c_tenant c)) (p_io s)\<rparr>)"
| "call_step e c (Bind sid) s =
     (case SetBackendSID e (Header_Get (hheaders (c_request c)) mcpSessionHeader) (t_ID (c_tenant c)) sid (p_sessions s) (p_io s) of
        (st, io) \<Rightarrow> (Forward sid, s\<lparr>p_sessions := st, p_io := io\<rparr>))"
| "call_step e c (Forward sid) s =
     (case forwardCall e (c_tenant c) sid (c_id c) (c_bytes c) (c_headers c) (c_name c) (c_resp c) s of
        ((resp, ok), s1) \<Rightarrow> (Record resp ok, s1))"
| "call_step e c (Record resp ok) s =
     (Done resp,
      s\<lparr>p_obs := RecordToolCall (if ok \<or> resp = None then c_attrs c else (c_attrs c)\<lparr>a_ErrorType := ''backend_error''\<rparr>) (p_obs s)\<rparr>)"
| "call_step e c (Done resp) s = (Done resp, s)"

text \<open>\<open>n\<close> steps without interruption.\<close>

fun call_run :: "env \<Rightarrow> Call \<Rightarrow> nat \<Rightarrow> pc \<times> Proxy \<Rightarrow> pc \<times> Proxy" where
  "call_run e c 0 x = x"
| "call_run e c (Suc n) x = call_run e c n (call_step e c (fst x) (snd x))"

text \<open>Every call is over after at most six steps, whatever happens in between.\<close>

fun steps_left :: "pc \<Rightarrow> nat" where
  "steps_left Lookup = 6"
| "steps_left Open = 5"
| "steps_left (Confirm _) = 4"
| "steps_left (Bind _) = 3"
| "steps_left (Forward _) = 2"
| "steps_left (Record _ _) = 1"
| "steps_left (Done _) = 0"

lemma call_step_progress: "steps_left pc \<noteq> 0 \<Longrightarrow> steps_left (fst (call_step e c pc s)) < steps_left pc"
  by (cases pc) (auto split: prod.split option.split sum.split)

lemma steps_left_0: "steps_left pc = 0 \<longleftrightarrow> (\<exists>resp. pc = Done resp)"
  by (cases pc) auto

section \<open>The function is the uninterrupted run\<close>

text \<open>From a routed call to its end, in terms of the function \<open>routeToBackend\<close>.\<close>

definition finished :: "Call \<Rightarrow> (hresp option \<times> bool) \<times> Proxy \<Rightarrow> pc \<times> Proxy" where
  "finished c x = (case x of ((resp, ok), s) \<Rightarrow> call_step undefined c (Record resp ok) s)"

lemma call_run_Done [simp]: "call_run e c n (Done resp, s) = (Done resp, s)"
  by (induction n) auto

lemma call_run_Forward:
  "call_run e c (Suc (Suc n)) (Forward sid, s) =
     finished c (forwardCall e (c_tenant c) sid (c_id c) (c_bytes c) (c_headers c) (c_name c) (c_resp c) s)"
  by (simp add: finished_def split: prod.split)

lemma call_run_Bind:
  "call_run e c (Suc (Suc (Suc n))) (Bind sid, s) =
     (let x = SetBackendSID e (Header_Get (hheaders (c_request c)) mcpSessionHeader) (t_ID (c_tenant c)) sid (p_sessions s) (p_io s)
      in finished c (forwardCall e (c_tenant c) sid (c_id c) (c_bytes c) (c_headers c) (c_name c) (c_resp c)
           (s\<lparr>p_sessions := fst x, p_io := snd x\<rparr>)))"
  unfolding call_run_Forward [of e c n, symmetric] by (simp add: Let_def split: prod.split)

lemma call_run_route:
  assumes "c_headers c = mergeHeaders [t_Headers (c_tenant c), ph]"
  shows "call_run e c 6 (Lookup, s) =
    finished c (routeToBackend e (c_request c) (c_id c) (c_tenant c) (c_bytes c) (c_name c) ph (c_resp c) s)"
proof (cases rule: route_cases [where t = "c_tenant c" and e = e and r = "c_request c" and s = s])
  case stateless
  then show ?thesis
    using call_run_Forward [of e c 3 "[]" s] assms by (simp add: routeToBackend_stateless eval_nat_numeral)
next
  case (unknown st io)
  then show ?thesis
    by (simp add: routeToBackend_unknown [OF unknown] eval_nat_numeral finished_def)
next
  case (bound sess st io sid)
  then show ?thesis
    using call_run_Forward [of e c 3 sid "s\<lparr>p_sessions := st, p_io := io\<rparr>"] assms
    by (simp add: routeToBackend_bound [OF bound] eval_nat_numeral)
next
  case (failed sess st io err io1)
  then show ?thesis
    by (simp add: routeToBackend_failed [OF failed] eval_nat_numeral finished_def)
next
  case (opened sess st io sid res io1)
  let ?s = "\<lambda>io. s\<lparr>p_sessions := st, p_io := io\<rparr>"
  have confirm: "call_run e c 4 (Confirm sid, ?s io1) = call_run e c 3 (Bind sid, ?s (notifyInitialized e
      (newBackendClient (t_Backend (c_tenant c))) sid (EffectiveCredential (c_tenant c)) io1))"
    by (simp add: eval_nat_numeral)
  have "call_run e c 6 (Lookup, s) = call_run e c 4 (if sid \<noteq> [] then Confirm sid else Bind sid, ?s io1)"
    using opened by (simp add: eval_nat_numeral)
  also have "\<dots> = call_run e c 3 (Bind sid, ?s (Routing.opened e (c_tenant c) sid io1))"
  proof (cases "sid = []")
    case True
    then show ?thesis by (simp add: Routing.opened_def call_run_Bind eval_nat_numeral del: call_run.simps)
  next
    case False
    then show ?thesis using confirm by (simp add: Routing.opened_def)
  qed
  finally show ?thesis
    by (simp add: routeToBackend_open [OF opened] call_run_Bind assms Let_def eval_nat_numeral del: call_run.simps)
qed

lemma call_run_handle:
  assumes "begin_call h e lib r req w s = Some c"
  shows "call_run e c 6 (Lookup, s) =
    (case handleToolsCall h e lib r req w s of (resp, s1) \<Rightarrow> (Done resp, s1))"
proof -
  obtain g t p pc' where x: "routed h e lib r req (p_catalog s) = Some (g, t, p, pc')"
    using assms by (auto simp: begin_call_def split: option.splits)
  obtain resp ok s1 where rt: "route e r req t p pc' w s = ((resp, ok), s1)" by (metis prod.collapse)
  have frame: "p_obs s1 = p_obs s"
    using routeToBackend_frame rt unfolding route_def by (metis snd_conv)
  have "call_run e c 6 (Lookup, s) = finished c ((resp, ok), s1)"
    using assms x rt call_run_route [of c "paramHeadersForCall (p_catalog s) t (tp_Name p) (tp_Arguments p)" e s]
    by (auto simp: begin_call_def route_def)
  moreover have "handleToolsCall h e lib r req w s =
      (resp, s1\<lparr>p_obs := RecordToolCall (snd (fst (toolsCall h e lib r req w s))) (p_obs s1)\<rparr>)"
    using toolsCall_routed(1,2) [OF x, of w] rt
    by (auto simp: handleToolsCall_def split: prod.split)
  moreover have "snd (fst (toolsCall h e lib r req w s)) =
      (if ok \<or> resp = None then c_attrs c else (c_attrs c)\<lparr>a_ErrorType := ''backend_error''\<rparr>)"
    using toolsCall_attrs [OF x, of w] assms x rt by (auto simp: begin_call_def)
  ultimately show ?thesis by (simp add: finished_def)
qed



text \<open>Where a call is after it took a step in each of these states, whatever happened in between.\<close>

fun interrupted :: "env \<Rightarrow> Call \<Rightarrow> pc \<Rightarrow> Proxy list \<Rightarrow> pc" where
  "interrupted e c pc [] = pc"
| "interrupted e c pc (s # ss) = interrupted e c (fst (call_step e c pc s)) ss"

lemma interrupted_left: "steps_left (interrupted e c pc ss) \<le> steps_left pc - length ss"
proof (induction ss arbitrary: pc)
  case (Cons s ss)
  show ?case
  proof (cases "steps_left pc = 0")
    case True
    then have "steps_left (fst (call_step e c pc s)) = 0" by (auto simp: steps_left_0)
    with Cons [of "fst (call_step e c pc s)"] True show ?thesis by simp
  next
    case False
    with Cons [of "fst (call_step e c pc s)"] call_step_progress [OF False, of e c s] show ?thesis by simp
  qed
qed simp



end
