(* ===== verification/Admission.thy ===== *)
theory Admission
  imports Calls
begin

text \<open>
  How a \<open>tools/call\<close> is admitted, in small steps. The handler takes the lock of one catalog at a time
  while it looks for the tenant of a call, and again for the parameter headers, so a refresh of a catalog
  may come between any two of these reads. One step is one read, or the answer after the last; the
  selection as one function, as Handler has it, is their run on catalogs that do not change.
\<close>

section \<open>The steps\<close>

text \<open>What is known once the token is verified and the params are decoded.\<close>

record Arrival =
  ar_request :: hreq
  ar_rpc :: jsonRPCRequest
  ar_groups :: "string list"
  ar_params :: toolCallParams
  ar_resp :: hresp

text \<open>Where the handler is: about to look the tool up for the one tenant in question, collecting the other
  tenants that have it (for the error message), collecting the tenants that have it, decided on a
  tenant, and at one of the two ends: the call is routed, or answered without a backend.\<close>

datatype route_pc =
    Check Tenant
  | Others Tenant "Tenant list" "Tenant list"
  | Candidates "Tenant list" "Tenant list"
  | Chosen Tenant
  | Routed Call
  | Answered hresp ToolCallAttrs

abbreviation ar_name :: "Arrival \<Rightarrow> string" where
  "ar_name a \<equiv> tp_Name (ar_params a)"

abbreviation ar_authorized :: "Handler \<Rightarrow> Arrival \<Rightarrow> Tenant list" where
  "ar_authorized h a \<equiv> AuthorizedTenants (h_Registry h) (ar_groups a)"

definition tool_attrs :: "string \<Rightarrow> ToolCallAttrs" where
  "tool_attrs name = \<lparr>a_Method = ''tools/call'', a_Tool = name, a_TenantID = [], a_Backend = [], a_ErrorType = []\<rparr>"

text \<open>The selection fails with this message.\<close>

definition refused :: "Handler \<Rightarrow> Arrival \<Rightarrow> string \<Rightarrow> route_pc" where
  "refused h a msg =
     Answered (writeResult (rq_ID (ar_rpc a)) (Marshal_map (statelessize h (toolResultText msg True))) (ar_resp a))
       ((tool_attrs (ar_name a))\<lparr>a_ErrorType := ''tenant_selection''\<rparr>)"

text \<open>Up to the first read of a catalog: an answer with what is recorded of the call, or the arrival and its
  first step.\<close>

definition first_read :: "Handler \<Rightarrow> env \<Rightarrow> Arrival \<Rightarrow> route_pc" where
  "first_read h e a =
     (let explicit = extractTenantArg (tp_Arguments (ar_params a)); authorized = ar_authorized h a in
      if explicit \<noteq> [] then
        (case ResolveTenant (h_Registry h) explicit of
           Inl _ \<Rightarrow> refused h a (''unknown tenant '' @ Quote (is_print e) explicit @ ''; choose one of: '' @ tenantList authorized)
         | Inr tenant \<Rightarrow>
             if \<not> IsAuthorized tenant (ar_groups a)
             then refused h a (''not authorized for tenant '' @ Quote (is_print e) explicit @ ''; choose one of: '' @ tenantList authorized)
             else Check tenant)
      else case authorized of
             [] \<Rightarrow> refused h a ''no instances are authorized for your token''
           | [t] \<Rightarrow> Check t
           | _ \<Rightarrow> Candidates authorized [])"

definition arrive ::
    "Handler \<Rightarrow> env \<Rightarrow> jwtlib \<Rightarrow> hreq \<Rightarrow> jsonRPCRequest \<Rightarrow> hresp \<Rightarrow> hresp \<times> ToolCallAttrs + Arrival \<times> route_pc" where
  "arrive h e lib r req w =
     (case Groups lib (h_Verifier h) r of
        Inl err \<Rightarrow> (case authFailure h r (rq_ID req) err w of (w1, typ) \<Rightarrow> Inl (w1, (tool_attrs [])\<lparr>a_ErrorType := typ\<rparr>))
      | Inr groups \<Rightarrow>
          (case Unmarshal_toolCallParams (rq_Params req) of
             Inl _ \<Rightarrow>
               Inl (writeRPCError (rq_ID req) (- 32602) ''invalid tools/call params'' w,
                    (tool_attrs [])\<lparr>a_ErrorType := ''invalid_params''\<rparr>)
           | Inr params \<Rightarrow>
               if tp_Name params = listInstancesTool
               then Inl (writeInstances h (rq_ID req) (AuthorizedTenants (h_Registry h) groups) w, tool_attrs (tp_Name params))
               else (let a = \<lparr>ar_request = r, ar_rpc = req, ar_groups = groups, ar_params = params, ar_resp = w\<rparr>
                     in Inr (a, first_read h e a))))"

text \<open>The end of the selection: the params are stripped, the headers projected with what the chosen tenant's
  catalog holds now.\<close>

definition finish_route :: "Arrival \<Rightarrow> Tenant \<Rightarrow> Catalogs \<Rightarrow> route_pc" where
  "finish_route a t cs =
     (let attrs = (tool_attrs (ar_name a))\<lparr>a_TenantID := t_ID t, a_Backend := b_Name (t_Backend t)\<rparr>; req = ar_rpc a in
      case stripTenantArg (rq_Params req) of
        Inl _ \<Rightarrow> Answered (writeRPCError (rq_ID req) (- 32602) ''invalid arguments'' (ar_resp a)) (attrs\<lparr>a_ErrorType := ''invalid_params''\<rparr>)
      | Inr c \<Rightarrow>
          Routed \<lparr>c_request = ar_request a, c_id = rq_ID req, c_tenant = t,
            c_bytes = Marshal_request \<lparr>rq_JSONRPC = ''2.0'', rq_Method = ''tools/call'', rq_Params = c, rq_ID = rq_ID req\<rparr>,
            c_name = ar_name a,
            c_headers = mergeHeaders [t_Headers t, paramHeadersForCall cs t (ar_name a) (tp_Arguments (ar_params a))],
            c_attrs = attrs, c_resp = ar_resp a\<rparr>)"

definition may_have_now :: "Catalogs \<Rightarrow> string \<Rightarrow> Tenant \<Rightarrow> bool" where
  "may_have_now cs name t = (case cachedTool cs (t_ID t) name of (found, known) \<Rightarrow> found \<noteq> None \<or> \<not> known)"

fun route_step :: "Handler \<Rightarrow> env \<Rightarrow> Arrival \<Rightarrow> route_pc \<Rightarrow> Catalogs \<Rightarrow> route_pc" where
  "route_step h e a (Check t) cs =
     (if may_have_now cs (ar_name a) t then Chosen t else Others t (ar_authorized h a) [])"
| "route_step h e a (Others t (u # us) acc) cs =
     Others t us (if may_have_now cs (ar_name a) u then acc @ [u] else acc)"
| "route_step h e a (Others t [] acc) cs =
     (let msg = ''tool '' @ Quote (is_print e) (ar_name a) @ '' is not available for tenant '' @ Quote (is_print e) (t_ID t);
          others = filter (\<lambda>u. t_ID u \<noteq> t_ID t) acc
      in refused h a (if others \<noteq> [] then msg @ ''; it is available on: '' @ tenantList others else msg))"
| "route_step h e a (Candidates (u # us) acc) cs =
     Candidates us (if may_have_now cs (ar_name a) u then acc @ [u] else acc)"
| "route_step h e a (Candidates [] acc) cs =
     (case acc of
        [] \<Rightarrow> refused h a (''tool '' @ Quote (is_print e) (ar_name a) @ '' is not available on any of your instances: ''
                @ tenantList (ar_authorized h a))
      | [t] \<Rightarrow> Chosen t
      | _ \<Rightarrow> refused h a (''multiple instances available; pass the '' @ Quote (is_print e) tenantArg
                @ '' argument, one of: '' @ tenantList acc))"
| "route_step h e a (Chosen t) cs = finish_route a t cs"
| "route_step h e a (Routed c) cs = Routed c"
| "route_step h e a (Answered resp out) cs = Answered resp out"

text \<open>The steps of one call, with the catalogs as each of them finds them.\<close>

definition route_steps :: "Handler \<Rightarrow> env \<Rightarrow> Arrival \<Rightarrow> route_pc \<Rightarrow> Catalogs list \<Rightarrow> route_pc" where
  "route_steps h e a = foldl (route_step h e a)"

lemma route_steps_simps [simp]:
  "route_steps h e a pc [] = pc"
  "route_steps h e a pc (cs # css) = route_steps h e a (route_step h e a pc cs) css"
  "route_steps h e a pc (css @ ds) = route_steps h e a (route_steps h e a pc css) ds"
  by (simp_all add: route_steps_def)

text \<open>The steps that are left, at most.\<close>

fun route_left :: "Handler \<Rightarrow> Arrival \<Rightarrow> route_pc \<Rightarrow> nat" where
  "route_left h a (Check t) = length (ar_authorized h a) + 2"
| "route_left h a (Others t us acc) = length us + 1"
| "route_left h a (Candidates us acc) = length us + 2"
| "route_left h a (Chosen t) = 1"
| "route_left h a (Routed c) = 0"
| "route_left h a (Answered resp out) = 0"

section \<open>The function is the uninterrupted run\<close>

lemma may_have_now_iff: "may_have_now cs name t \<longleftrightarrow> may_have cs name t"
  unfolding may_have_now_def by (rule found_iff)

lemma route_steps_settled [simp]:
  "route_steps h e a (Routed c) css = Routed c" "route_steps h e a (Answered resp out) css = Answered resp out"
  by (induction css) auto

lemma route_steps_refused [simp]: "route_steps h e a (refused h a msg) css = refused h a msg"
  by (simp add: refused_def)

lemma route_step_refused [simp]: "route_step h e a (refused h a msg) cs = refused h a msg"
  by (simp add: refused_def)

lemma route_left_refused [simp]: "route_left h a (refused h a msg) = 0"
  by (simp add: refused_def)

lemma others_run:
  "route_steps h e a (Others t us acc) (replicate (length us) cs) = Others t [] (acc @ filter (may_have cs (ar_name a)) us)"
  by (induction us arbitrary: acc) (auto simp: may_have_now_iff)

lemma candidates_run:
  "route_steps h e a (Candidates us acc) (replicate (length us) cs) = Candidates [] (acc @ filter (may_have cs (ar_name a)) us)"
  by (induction us arbitrary: acc) (auto simp: may_have_now_iff)

text \<open>What the handler goes on with once the selection is over.\<close>

definition selected :: "Handler \<Rightarrow> Arrival \<Rightarrow> Catalogs \<Rightarrow> string + Tenant \<Rightarrow> route_pc" where
  "selected h a cs x = (case x of Inl msg \<Rightarrow> refused h a msg | Inr t \<Rightarrow> finish_route a t cs)"

lemma finish_settled [simp]:
  "route_steps h e a (finish_route a t cs) css = finish_route a t cs" "route_left h a (finish_route a t cs) = 0"
  by (simp_all add: finish_route_def Let_def split: sum.split)

lemma check_run:
  "route_steps h e a (Check t) (replicate (route_left h a (Check t)) cs) =
     (let msg = unavailable e cs (ar_name a) t (ar_authorized h a)
      in selected h a cs (if msg \<noteq> [] then Inl msg else Inr t))"
proof (cases "may_have cs (ar_name a) t")
  case True
  then show ?thesis by (simp add: Let_def selected_def may_have_now_iff unavailable_iff)
next
  case False
  let ?n = "length (ar_authorized h a)"
  have found: "\<not> (fst (cachedTool cs (t_ID t) (ar_name a)) \<noteq> None \<or> \<not> snd (cachedTool cs (t_ID t) (ar_name a)))"
    using False found_iff [of cs "t_ID t" "ar_name a"] by (simp add: case_prod_beta)
  have "replicate (route_left h a (Check t)) cs = cs # replicate ?n cs @ [cs]"
    by (simp add: replicate_append_same)
  with False found show ?thesis
    by (simp add: may_have_now_iff others_run selected_def unavailable_def Let_def case_prod_beta tenantsWithTool_filter)
qed

lemma candidates_select:
  "route_steps h e a (Candidates ts []) (replicate (route_left h a (Candidates ts [])) cs) =
     selected h a cs (case tenantsWithTool cs (ar_name a) ts of
        [] \<Rightarrow> Inl (''tool '' @ Quote (is_print e) (ar_name a) @ '' is not available on any of your instances: ''
                @ tenantList (ar_authorized h a))
      | [t] \<Rightarrow> Inr t
      | _ \<Rightarrow> Inl (''multiple instances available; pass the '' @ Quote (is_print e) tenantArg
                @ '' argument, one of: '' @ tenantList (tenantsWithTool cs (ar_name a) ts)))"
proof -
  have "replicate (route_left h a (Candidates ts [])) cs = replicate (length ts) cs @ [cs, cs]"
    by (simp only: route_left.simps replicate_add) (simp add: numeral_2_eq_2)
  then show ?thesis
    by (simp add: candidates_run tenantsWithTool_filter selected_def split: list.split)
qed

lemma first_read_run:
  "route_steps h e a (first_read h e a) (replicate (route_left h a (first_read h e a)) cs) =
     selected h a cs (selectTenant e (h_Registry h) cs (ar_name a) (tp_Arguments (ar_params a)) (ar_groups a) (ar_authorized h a))"
proof (cases "extractTenantArg (tp_Arguments (ar_params a)) = []")
  case False
  then show ?thesis
    by (auto simp: first_read_def selectTenant_def check_run Let_def selected_def simp del: route_left.simps split: sum.split)
next
  case True
  show ?thesis
  proof (cases "ar_authorized h a")
    case Nil
    with True show ?thesis by (simp add: first_read_def selectTenant_def selected_def)
  next
    case (Cons u us)
    show ?thesis
    proof (cases us)
      case Nil
      with Cons True have "first_read h e a = Check u" by (simp add: first_read_def)
      with Cons True Nil show ?thesis by (simp only: check_run) (simp add: selectTenant_def Let_def)
    next
      case 2: (Cons v vs)
      with Cons True have "first_read h e a = Candidates (ar_authorized h a) []" by (simp add: first_read_def)
      with Cons True 2 show ?thesis by (simp only: candidates_select) (simp add: selectTenant_def Let_def split: list.split)
    qed
  qed
qed

lemma arrive_run:
  "case arrive h e lib r req w of
     Inl (resp, out) \<Rightarrow> toolsCall h e lib r req w s = ((Some resp, out), s)
   | Inr (a, pc) \<Rightarrow>
       (case route_steps h e a pc (replicate (route_left h a pc) (p_catalog s)) of
          Routed c \<Rightarrow> begin_call h e lib r req w s = Some c
        | Answered resp out \<Rightarrow> toolsCall h e lib r req w s = ((Some resp, out), s)
        | _ \<Rightarrow> False)"
proof (cases "Groups lib (h_Verifier h) r")
  case (Inl err)
  then show ?thesis by (simp add: arrive_def toolsCall_def tool_attrs_def split: prod.split)
next
  case g: (Inr groups)
  show ?thesis
  proof (cases "Unmarshal_toolCallParams (rq_Params req)")
    case (Inl err)
    with g show ?thesis by (simp add: arrive_def toolsCall_def tool_attrs_def)
  next
    case p: (Inr params)
    show ?thesis
    proof (cases "tp_Name params = listInstancesTool")
      case True
      with g p show ?thesis by (simp add: arrive_def toolsCall_def tool_attrs_def)
    next
      case False
      let ?a = "\<lparr>ar_request = r, ar_rpc = req, ar_groups = groups, ar_params = params, ar_resp = w\<rparr>"
      let ?x = "selectTenant e (h_Registry h) (p_catalog s) (tp_Name params) (tp_Arguments params) groups
        (AuthorizedTenants (h_Registry h) groups)"
      have "arrive h e lib r req w = Inr (?a, first_read h e ?a)" using g p False by (simp add: arrive_def Let_def)
      moreover have "route_steps h e ?a (first_read h e ?a) (replicate (route_left h ?a (first_read h e ?a)) (p_catalog s))
          = selected h ?a (p_catalog s) ?x"
        by (simp add: first_read_run)
      moreover have "case selected h ?a (p_catalog s) ?x of
          Routed c \<Rightarrow> begin_call h e lib r req w s = Some c
        | Answered resp out \<Rightarrow> toolsCall h e lib r req w s = ((Some resp, out), s) | _ \<Rightarrow> False"
      proof (cases ?x)
        case (Inl msg)
        with g p False show ?thesis by (simp add: selected_def refused_def toolsCall_def tool_attrs_def)
      next
        case x: (Inr t)
        with g p False show ?thesis
          by (cases "stripTenantArg (rq_Params req)")
            (simp_all add: selected_def finish_route_def toolsCall_def tool_attrs_def begin_call_def routed_def Let_def)
      qed
      ultimately show ?thesis by (simp only: sum.case prod.case)
    qed
  qed
qed

lemma begin_call_admitted:
  assumes "begin_call h e lib r req w s = Some c"
  obtains a pc css where "arrive h e lib r req w = Inr (a, pc)" "route_steps h e a pc css = Routed c"
proof -
  obtain g t p d where x: "routed h e lib r req (p_catalog s) = Some (g, t, p, d)"
    using assms by (auto simp: begin_call_def split: option.splits)
  note xD = routed_SomeD [OF x]
  let ?a = "\<lparr>ar_request = r, ar_rpc = req, ar_groups = g, ar_params = p, ar_resp = w\<rparr>"
  have "arrive h e lib r req w = Inr (?a, first_read h e ?a)" using xD by (simp add: arrive_def Let_def)
  moreover have "route_steps h e ?a (first_read h e ?a) (replicate (route_left h ?a (first_read h e ?a)) (p_catalog s)) = Routed c"
    using xD assms by (simp add: first_read_run selected_def finish_route_def begin_call_def x tool_attrs_def Let_def)
  ultimately show ?thesis by (rule that)
qed

section \<open>Interrupted\<close>

lemma route_step_left:
  "route_left h a pc \<noteq> 0 \<Longrightarrow> route_left h a (route_step h e a pc cs) < route_left h a pc"
  by (cases "(h, e, a, pc, cs)" rule: route_step.cases)
    (auto simp: refused_def finish_route_def Let_def split: list.split sum.split)

lemma route_left_0: "route_left h a pc = 0 \<longleftrightarrow> (\<exists>c. pc = Routed c) \<or> (\<exists>resp out. pc = Answered resp out)"
  by (cases pc) auto

lemma route_left_steps: "route_left h a (route_steps h e a pc css) \<le> route_left h a pc - length css"
proof (induction css arbitrary: pc)
  case (Cons cs css)
  show ?case
  proof (cases "route_left h a pc = 0")
    case True
    then show ?thesis by (auto simp: route_left_0 simp del: route_steps_simps)
  next
    case False
    from Cons [of "route_step h e a pc cs"] route_step_left [OF False, of e cs] show ?thesis by simp
  qed
qed simp

text \<open>Whatever the catalogs do in between: the tenant in question is one the caller may use, and the one it named
  if it named one.\<close>

definition eligible :: "Handler \<Rightarrow> Arrival \<Rightarrow> Tenant \<Rightarrow> bool" where
  "eligible h a t \<longleftrightarrow> t \<in> set (ar_authorized h a)
     \<and> (extractTenantArg (tp_Arguments (ar_params a)) \<noteq> [] \<longrightarrow> t_ID t = extractTenantArg (tp_Arguments (ar_params a)))"

fun route_ok :: "Handler \<Rightarrow> Arrival \<Rightarrow> route_pc \<Rightarrow> bool" where
  "route_ok h a (Check t) \<longleftrightarrow> eligible h a t"
| "route_ok h a (Others t us acc) \<longleftrightarrow> True"
| "route_ok h a (Candidates us acc) \<longleftrightarrow> list_all (eligible h a) us \<and> list_all (eligible h a) acc"
| "route_ok h a (Chosen t) \<longleftrightarrow> eligible h a t"
| "route_ok h a (Routed c) \<longleftrightarrow>
     (\<exists>cs. eligible h a (c_tenant c) \<and> finish_route a (c_tenant c) cs = Routed c)"
| "route_ok h a (Answered resp out) \<longleftrightarrow> a_ErrorType out \<noteq> []"

lemma route_ok_refused [simp]: "route_ok h a (refused h a msg)"
  by (simp add: refused_def)

lemma route_ok_finish: "eligible h a t \<Longrightarrow> route_ok h a (finish_route a t cs)"
  by (auto simp: finish_route_def Let_def split: sum.split)

lemma route_ok_first:
  assumes "reg_wf (h_Registry h)"
  shows "route_ok h a (first_read h e a)"
  using Authorized_resolve [OF assms, of _ "ar_groups a"]
  by (auto simp: first_read_def Let_def eligible_def list_all_iff split: sum.split list.split)

lemma route_ok_step: "route_ok h a pc \<Longrightarrow> route_ok h a (route_step h e a pc cs)"
  by (cases "(h, e, a, pc, cs)" rule: route_step.cases)
    (auto simp: Let_def route_ok_finish split: list.split)

lemma route_ok_steps: "route_ok h a pc \<Longrightarrow> route_ok h a (route_steps h e a pc css)"
  by (induction css arbitrary: pc) (auto intro: route_ok_step)

lemma route_left_first: "route_left h a (first_read h e a) \<le> length (ar_authorized h a) + 2"
  by (auto simp: first_read_def Let_def split: sum.split list.split)

lemma arriveD:
  assumes "arrive h e lib r req w = Inr (a, pc)"
  shows "pc = first_read h e a" and "Groups lib (h_Verifier h) r = Inr (ar_groups a)" and "ar_request a = r" and "ar_rpc a = req"
  using assms by (auto simp: arrive_def Let_def split: sum.splits prod.splits if_splits)

lemma admission_ok:
  assumes "reg_wf (h_Registry h)" and "arrive h e lib r req w = Inr (a, pc)"
  shows "route_ok h a (route_steps h e a pc css)"
  unfolding arriveD(1) [OF assms(2)] by (intro route_ok_steps route_ok_first assms(1))

lemma finish_routed:
  "finish_route a t cs = Routed c \<Longrightarrow> c_request c = ar_request a \<and> c_tenant c = t
     \<and> (\<exists>ph. c_headers c = mergeHeaders [t_Headers t, ph])"
  by (auto simp: finish_route_def Let_def split: sum.splits)

lemma admitted_tenant:
  assumes "reg_wf (h_Registry h)" and "arrive h e lib r req w = Inr (a, pc)" and "route_steps h e a pc css = Routed c"
  shows "eligible h a (c_tenant c)" and "c_request c = r" and "\<exists>ph. c_headers c = mergeHeaders [t_Headers (c_tenant c), ph]"
proof -
  have "route_ok h a (Routed c)" using admission_ok [OF assms(1,2), of css] assms(3) by simp
  then obtain cs where "eligible h a (c_tenant c)" "finish_route a (c_tenant c) cs = Routed c" by auto
  with finish_routed [OF this(2)] arriveD(3) [OF assms(2)]
  show "eligible h a (c_tenant c)" and "c_request c = r" and "\<exists>ph. c_headers c = mergeHeaders [t_Headers (c_tenant c), ph]"
    by auto
qed

lemma admission_ends:
  assumes "reg_wf (h_Registry h)" and "arrive h e lib r req w = Inr (a, pc)" and "length (ar_authorized h a) + 2 \<le> length css"
  shows "(\<exists>c. route_steps h e a pc css = Routed c)
    \<or> (\<exists>resp out. route_steps h e a pc css = Answered resp out \<and> a_ErrorType out \<noteq> [])"
proof -
  note pc = arriveD(1) [OF assms(2)]
  have "route_left h a (route_steps h e a pc css) = 0"
    using route_left_steps [of h a e pc css] route_left_first [of h a e] assms(3) pc by simp
  with admission_ok [OF assms(1,2), of css] show ?thesis by (auto simp: route_left_0)
qed

text \<open>C6. The admission of a call in small steps. On catalogs that do not change it decides as the handler, which
  is one function of the model, does: it routes the same call, or gives the same answer and records the
  same attributes. When catalogs are refreshed between its reads, any number of times and to anything,
  it still ends, after at most two steps more than the caller has tenants; it is answered with an error
  or routed to a tenant the caller's groups authorize, the named one if the call names one, under that
  tenant's headers.\<close>

theorem admission_refines_handler:
  assumes "arrive h e lib r req w = Inr (a, pc)" and "reg_wf (h_Registry h)"
  shows "(case route_steps h e a pc (replicate (route_left h a pc) (p_catalog s)) of
       Routed c \<Rightarrow> begin_call h e lib r req w s = Some c
     | Answered resp out \<Rightarrow> handleToolsCall h e lib r req w s = (Some resp, s\<lparr>p_obs := RecordToolCall out (p_obs s)\<rparr>)
     | _ \<Rightarrow> False)
    \<and> (length (ar_authorized h a) + 2 \<le> length css \<longrightarrow>
        (\<exists>resp out. route_steps h e a pc css = Answered resp out \<and> a_ErrorType out \<noteq> [])
        \<or> (\<exists>c ph. route_steps h e a pc css = Routed c \<and> c_request c = r
            \<and> Groups lib (h_Verifier h) r = Inr (ar_groups a) \<and> c_tenant c \<in> set (ar_authorized h a)
            \<and> (extractTenantArg (tp_Arguments (ar_params a)) \<noteq> [] \<longrightarrow> t_ID (c_tenant c) = extractTenantArg (tp_Arguments (ar_params a)))
            \<and> c_headers c = mergeHeaders [t_Headers (c_tenant c), ph]))"
proof (intro conjI impI)
  show "case route_steps h e a pc (replicate (route_left h a pc) (p_catalog s)) of
       Routed c \<Rightarrow> begin_call h e lib r req w s = Some c
     | Answered resp out \<Rightarrow> handleToolsCall h e lib r req w s = (Some resp, s\<lparr>p_obs := RecordToolCall out (p_obs s)\<rparr>)
     | _ \<Rightarrow> False"
    using arrive_run [of h e lib r req w s] assms(1) by (auto simp: handleToolsCall_def split: route_pc.splits)
next
  assume long: "length (ar_authorized h a) + 2 \<le> length css"
  from admission_ends [OF assms(2,1) long] admitted_tenant [OF assms(2,1)] arriveD [OF assms(1)]
  show "(\<exists>resp out. route_steps h e a pc css = Answered resp out \<and> a_ErrorType out \<noteq> [])
        \<or> (\<exists>c ph. route_steps h e a pc css = Routed c \<and> c_request c = r
            \<and> Groups lib (h_Verifier h) r = Inr (ar_groups a) \<and> c_tenant c \<in> set (ar_authorized h a)
            \<and> (extractTenantArg (tp_Arguments (ar_params a)) \<noteq> [] \<longrightarrow> t_ID (c_tenant c) = extractTenantArg (tp_Arguments (ar_params a)))
            \<and> c_headers c = mergeHeaders [t_Headers (c_tenant c), ph])"
    unfolding eligible_def by blast
qed

text \<open>A call that names no tenant is between its reads when the catalogs are fetched: with the cold catalogs it
  would be refused as ambiguous, but it is routed.\<close>

definition demo_bare :: jsonRPCRequest where
  "demo_bare = demo_call\<lparr>rq_Params := Some (JObj [(''name'', JStr ''f''), (''arguments'', JObj [])])\<rparr>"

definition without_tools :: "nat list \<Rightarrow> Catalogs" where
  "without_tools is = (let cs = NewCatalogs demo_registry 5
     in cs\<lparr>unique := map (\<lambda>i. if i \<in> set is then (unique cs ! i)\<lparr>cat_tools := Some []\<rparr> else unique cs ! i) [0..<length (unique cs)]\<rparr>)"

definition demo_reads :: "Catalogs list" where
  "demo_reads = replicate 1 (without_tools []) @ replicate 4 (without_tools [0, 1, 2])"

theorem admission_refines_handler_witness:
  "\<exists>a pc. arrive demo_handler quiet_env example_lib example_request demo_bare new_resp = Inr (a, pc)
     \<and> (\<exists>resp out. route_steps demo_handler quiet_env a pc (replicate (route_left demo_handler a pc) (p_catalog demo_state)) = Answered resp out)
     \<and> (\<exists>c. route_steps demo_handler quiet_env a pc demo_reads = Routed c \<and> c_tenant c \<in> set (ar_authorized demo_handler a))"
proof -
  let ?x = "arrive demo_handler quiet_env example_lib example_request demo_bare new_resp"
  have x: "case ?x of Inl _ \<Rightarrow> False
      | Inr (a, pc) \<Rightarrow> length (ar_authorized demo_handler a) = 3
         \<and> (case route_steps demo_handler quiet_env a pc (replicate (route_left demo_handler a pc) (p_catalog demo_state)) of
              Answered _ _ \<Rightarrow> True | _ \<Rightarrow> False)
         \<and> (case route_steps demo_handler quiet_env a pc demo_reads of Routed _ \<Rightarrow> True | _ \<Rightarrow> False)"
    by code_simp
  then obtain a pc where a: "?x = Inr (a, pc)" by (auto split: sum.splits)
  have wf: "reg_wf (h_Registry demo_handler)" by (simp add: demo_handler_def demo_registry_wf)
  have "length (ar_authorized demo_handler a) + 2 \<le> length demo_reads" using x a by (simp add: demo_reads_def)
  with admission_refines_handler [OF a wf, of demo_state demo_reads] x a show ?thesis
    by (auto split: route_pc.splits)
qed

end
