(* ===== verification/Listing.thy ===== *)
theory Listing
  imports Routing
begin

text \<open>
  The listing a client gets and the calls it may make of it: the union of the tenants' tools, and the
  agreement of the tenant argument a listed tool asks for with the tenants a call of it can be routed to.
\<close>

section \<open>The union of the views\<close>

definition entries :: "tenantTools list \<Rightarrow> (string \<times> rawTool) list" where
  "entries views = concat (map (\<lambda>(t, tools). map (Pair (t_ID t)) tools) views)"

text \<open>First occurrences, in order.\<close>

definition firsts :: "'a list \<Rightarrow> 'a list" where
  "firsts xs = rev (remdups (rev xs))"

lemma firsts_Nil [simp]: "firsts [] = []"
  by (simp add: firsts_def)

lemma firsts_snoc [simp]: "firsts (xs @ [x]) = (if x \<in> set xs then firsts xs else firsts xs @ [x])"
  by (simp add: firsts_def)

lemma set_firsts [simp]: "set (firsts xs) = set xs"
  by (simp add: firsts_def)

lemma distinct_firsts [simp]: "distinct (firsts xs)"
  by (simp add: firsts_def)

definition add_entry :: "string \<times> rawTool \<Rightarrow> tool_union \<Rightarrow> tool_union" where
  "add_entry x u = addTool \<lparr>t_ID = fst x, t_Groups = [], t_Headers = [], t_Credential = [], t_Backend = undefined\<rparr> (snd x) u"

lemma addTool_entry: "addTool t = (\<lambda>x. add_entry (t_ID t, x))"
  by (intro ext) (simp add: addTool_def add_entry_def)

lemma unionTools_entries:
  "unionTools views = fold add_entry (entries views) \<lparr>tu_order = [], tu_defs = [], tu_having = []\<rparr>"
proof -
  have "fold (addTool t) tools u = fold add_entry (map (Pair (t_ID t)) tools) u" for t tools u
    by (simp add: fold_map comp_def addTool_entry)
  then have "fold (\<lambda>(t, tools) u. fold (addTool t) tools u) views u = fold add_entry (entries views) u" for u
    by (induction views arbitrary: u) (auto simp: entries_def)
  then show ?thesis by (simp add: unionTools_def)
qed

definition ids_with :: "string \<Rightarrow> (string \<times> rawTool) list \<Rightarrow> string list" where
  "ids_with name es = map fst (filter (\<lambda>x. toolName (snd x) = name) es)"

lemma ids_with_empty: "ids_with n es = [] \<longleftrightarrow> n \<notin> set (map (toolName \<circ> snd) es)"
  by (induction es) (auto simp: ids_with_def)

lemma add_entry_eq:
  "add_entry x u =
     (let n = toolName (snd x); new = (map_of (tu_defs u) n = None)
      in u\<lparr>tu_order := (if new then tu_order u @ [n] else tu_order u),
           tu_defs := (if new then gomap_set n (snd x) (tu_defs u) else tu_defs u),
           tu_having := gomap_set n ((case map_of (tu_having u) n of None \<Rightarrow> [] | Some l \<Rightarrow> l) @ [fst x]) (tu_having u)\<rparr>)"
  by (simp add: add_entry_def addTool_def Let_def split: option.split)

text \<open>What the union holds after some entries.\<close>

definition union_of :: "(string \<times> rawTool) list \<Rightarrow> tool_union \<Rightarrow> bool" where
  "union_of es u \<longleftrightarrow>
     tu_order u = firsts (map (toolName \<circ> snd) es)
     \<and> (\<forall>n. map_of (tu_defs u) n = map_of (map (\<lambda>x. (toolName (snd x), snd x)) es) n)
     \<and> (\<forall>n. map_of (tu_having u) n = (if ids_with n es = [] then None else Some (ids_with n es)))"

lemma union_of_snoc:
  assumes "union_of es u"
  shows "union_of (es @ [x]) (add_entry x u)"
proof -
  have ids: "ids_with m (es @ [x]) = ids_with m es @ (if toolName (snd x) = m then [fst x] else [])" for m
    by (simp add: ids_with_def)
  have "map_of (map (\<lambda>x. (toolName (snd x), snd x)) es) m = None \<longleftrightarrow> m \<notin> set (map (toolName \<circ> snd) es)" for m
    by (auto simp: map_of_eq_None_iff image_image)
  then have new: "map_of (tu_defs u) m = None \<longleftrightarrow> m \<notin> set (map (toolName \<circ> snd) es)" for m
    using assms by (simp add: union_of_def)
  show ?thesis
    using assms new [of "toolName (snd x)"]
    by (auto simp: union_of_def add_entry_eq Let_def ids ids_with_empty map_add_def update_conv' split: option.split)
qed

lemma union_fold: "union_of es (fold add_entry es \<lparr>tu_order = [], tu_defs = [], tu_having = []\<rparr>)"
  by (induction es rule: rev_induct) (simp_all add: union_of_snoc, simp add: union_of_def ids_with_def)

lemma union_unionTools: "union_of (entries views) (unionTools views)"
  unfolding unionTools_entries by (rule union_fold)

lemma union_order: "tu_order (unionTools views) = firsts (map (toolName \<circ> snd) (entries views))"
  using union_unionTools [of views] by (simp add: union_of_def)

lemma union_defs: "map_of (tu_defs (unionTools views)) n = map_of (map (\<lambda>x. (toolName (snd x), snd x)) (entries views)) n"
  using union_unionTools [of views] by (simp add: union_of_def)

lemma union_having:
  "n \<in> set (tu_order (unionTools views)) \<Longrightarrow> map_of (tu_having (unionTools views)) n = Some (ids_with n (entries views))"
  using union_unionTools [of views] by (simp add: union_of_def ids_with_empty)

text \<open>When no view lists a tool twice, a tool is attributed to each tenant that has it, once.\<close>

lemma filter_name_distinct:
  "distinct (map toolName tools) \<Longrightarrow>
   map (\<lambda>_. c) (filter (\<lambda>x. toolName x = n) tools) = (if n \<in> toolName ` set tools then [c] else [])"
  by (induction tools) (auto simp: filter_empty_conv image_iff)

lemma ids_with_views:
  assumes "\<forall>(t, tools) \<in> set views. distinct (map toolName tools)"
  shows "ids_with n (entries views) = map (t_ID \<circ> fst) (filter (\<lambda>(t, tools). n \<in> toolName ` set tools) views)"
  using assms
proof (induction views)
  case (Cons v views)
  obtain t tools where v: "v = (t, tools)" by (cases v)
  have "map fst (filter (\<lambda>x. toolName (snd x) = n) (map (Pair (t_ID t)) tools)) = (if n \<in> toolName ` set tools then [t_ID t] else [])"
  proof -
    have "map fst (filter (\<lambda>x. toolName (snd x) = n) (map (Pair (t_ID t)) tools)) = map (\<lambda>_. t_ID t) (filter (\<lambda>x. toolName x = n) tools)"
      by (simp add: filter_map comp_def)
    also have "\<dots> = (if n \<in> toolName ` set tools then [t_ID t] else [])"
      using Cons.prems v by (intro filter_name_distinct) auto
    finally show ?thesis .
  qed
  with Cons v show ?case by (auto simp: ids_with_def entries_def)
qed (simp add: ids_with_def entries_def)

section \<open>The listing and the routing agree\<close>

text \<open>The arguments of a call that carries nothing but the tenant argument.\<close>

definition tenant_args :: "string \<Rightarrow> RawMessage" where
  "tenant_args i = Some (JObj [(tenantArg, JStr i)])"

lemma extract_tenant_args [simp]: "extractTenantArg (tenant_args i) = i"
  by (simp add: extractTenantArg_def tenant_args_def Unmarshal_map_def nilmap_def obj_map_def Unmarshal_string_def)

lemma extract_none [simp]: "extractTenantArg None = []"
  by (simp add: extractTenantArg_def)

text \<open>A listed tool as a caller with several tenants sees it.\<close>

lemma callerTool_several:
  assumes "2 \<le> n" and "name \<in> set (tu_order (unionTools views))"
  shows "\<exists>x. callerTool False n (unionTools views) name =
    injectTenantArg x (tenantSchema (ids_with name (entries views)) (2 \<le> length (ids_with name (entries views))))
      (2 \<le> length (ids_with name (entries views)))"
  using assms union_having [OF assms(2)] by (auto simp: callerTool_def Let_def)

lemma listed_tenants:
  assumes "map fst views = ts"
    and "\<forall>(t, tools) \<in> set views. cachedTools cs (t_ID t) = Some tools \<and> distinct (map toolName tools)"
  shows "ids_with name (entries views) = map t_ID (filter (may_have cs name) ts)"
proof -
  have "ids_with name (entries views) = map (t_ID \<circ> fst) (filter (\<lambda>(t, tools). name \<in> toolName ` set tools) views)"
    using assms(2) by (intro ids_with_views) auto
  also have "filter (\<lambda>(t, tools). name \<in> toolName ` set tools) views = filter (may_have cs name \<circ> fst) views"
    using assms(2) by (intro filter_cong) (auto simp: tools.may_have_def)
  also have "map (t_ID \<circ> fst) \<dots> = map t_ID (filter (may_have cs name) ts)"
    unfolding assms(1) [symmetric] by (simp add: filter_map)
  finally show ?thesis .
qed

text \<open>C15. What a caller with several tenants is shown is what it can do. As long as the cached tool lists are
  those the listing was made from, the tenant argument of a listed tool offers exactly the tenants a
  call that names its tenant is routed to; and it is required exactly when a call without it is not
  routed. (A backend that lists a tool twice is the exception: its tenant is then offered twice.)\<close>

theorem listing_agrees_with_routing:
  assumes "reg_wf reg" and "map fst views = AuthorizedTenants reg groups" and "2 \<le> length views"
    and "\<forall>(t, tools) \<in> set views. cachedTools cs (t_ID t) = Some tools \<and> distinct (map toolName tools)"
    and "name \<in> set (tu_order (unionTools views))"
  shows "\<exists>x ids. callerTool False (length views) (unionTools views) name =
      injectTenantArg x (tenantSchema ids (2 \<le> length ids)) (2 \<le> length ids)
    \<and> ids \<noteq> [] \<and> distinct ids
    \<and> (i \<noteq> [] \<longrightarrow> (i \<in> set ids \<longleftrightarrow>
        (\<exists>t. selectTenant e reg cs name (tenant_args i) groups (AuthorizedTenants reg groups) = Inr t)))
    \<and> (2 \<le> length ids \<longleftrightarrow>
        (\<nexists>t. selectTenant e reg cs name None groups (AuthorizedTenants reg groups) = Inr t))"
proof -
  let ?ids = "ids_with name (entries views)" and ?ts = "filter (may_have cs name) (AuthorizedTenants reg groups)"
  have ids: "?ids = map t_ID ?ts" by (rule listed_tenants [OF assms(2,4)])
  have "distinct (map t_ID (AuthorizedTenants reg groups))"
    using assms(1) by (rule distinct_AuthorizedTenants)
  then have d: "distinct ?ids" unfolding ids by (rule distinct_map_filter)
  have ne: "?ids \<noteq> []" using assms(5) by (simp add: ids_with_empty union_order)
  have "i \<in> set ?ids \<longleftrightarrow> (\<exists>t. selectTenant e reg cs name (tenant_args i) groups (AuthorizedTenants reg groups) = Inr t)"
    if "i \<noteq> []"
    using that by (auto simp: ids selectTenant_Inr [OF assms(1)])
  moreover have "2 \<le> length ?ids \<longleftrightarrow> (\<nexists>t. selectTenant e reg cs name None groups (AuthorizedTenants reg groups) = Inr t)"
  proof -
    have "length ?ids = 1 \<longleftrightarrow> (\<exists>t. ?ts = [t])" by (auto simp: ids length_Suc_conv)
    moreover have "length ?ids \<noteq> 0" using ne by simp
    then have "2 \<le> length ?ids \<longleftrightarrow> length ?ids \<noteq> 1" by linarith
    ultimately show ?thesis by (simp add: selectTenant_Inr [OF assms(1)])
  qed
  ultimately show ?thesis using callerTool_several [OF assms(3,5)] d ne by blast
qed

text \<open>Three tenants, two of which share a catalog with a tool, and one whose catalog is empty.\<close>

definition listed_catalogs :: Catalogs where
  "listed_catalogs = \<lparr>cs_byTenant = [(''acme'', 0), (''beta'', 0), (''corp'', 1)],
     unique = [(newCatalog example_backend ''k'' [] 5)\<lparr>cat_tools := Some [example_tool]\<rparr>,
       (newCatalog stateful_backend ''pat'' [] 5)\<lparr>cat_tools := Some []\<rparr>]\<rparr>"

definition listed_views :: "tenantTools list" where
  "listed_views = map (\<lambda>t. (t, tools_list (cachedTools listed_catalogs (t_ID t)))) (AuthorizedTenants demo_registry [''dev'', ''ops''])"

theorem listing_agrees_with_routing_witness:
  "\<exists>x ids. callerTool False 3 (unionTools listed_views) (toolName example_tool) =
      injectTenantArg x (tenantSchema ids (2 \<le> length ids)) (2 \<le> length ids)
    \<and> (''beta'' \<in> set ids \<longleftrightarrow> (\<exists>t. selectTenant quiet_env demo_registry listed_catalogs (toolName example_tool)
          (tenant_args ''beta'') [''dev'', ''ops''] (AuthorizedTenants demo_registry [''dev'', ''ops'']) = Inr t))"
proof -
  have len: "length listed_views = 3" by code_simp
  have views: "map fst listed_views = AuthorizedTenants demo_registry [''dev'', ''ops'']"
    by (simp add: listed_views_def comp_def)
  have "list_all (\<lambda>(t, tools). cachedTools listed_catalogs (t_ID t) = Some tools \<and> distinct (map toolName tools)) listed_views"
    by code_simp
  then have cached: "\<forall>(t, tools) \<in> set listed_views. cachedTools listed_catalogs (t_ID t) = Some tools \<and> distinct (map toolName tools)"
    by (simp add: list_all_iff)
  have name: "toolName example_tool \<in> set (tu_order (unionTools listed_views))" by code_simp
  have "2 \<le> length listed_views" by (simp add: len)
  from listing_agrees_with_routing [OF demo_registry_wf views this cached name, of "''beta''" quiet_env] len
  show ?thesis by auto
qed

text \<open>A tool listed twice by one tenant's backend: the tenant is offered twice, and the argument becomes
  required although only one tenant has the tool.\<close>

lemma listed_twice:
  "ids_with (toolName example_tool) (entries [(demo_tenant ''acme'' ''dev'' example_backend [], [example_tool, example_tool]),
     (demo_tenant ''corp'' ''dev'' stateful_backend [], [])]) = [''acme'', ''acme'']"
  by code_simp

end
