(* ===== verification/Isolation.thy ===== *)
theory Isolation
  imports Admission
begin

text \<open>
  The proxy as a state machine and what its tenants can rely on: which backend session a request may
  carry, traced back to the handshake that opened it. The steps are the requests of clients, the
  spawned teardowns and the warming of the catalogs, in any order.
\<close>

section \<open>Backend sessions and their origin\<close>

text \<open>\<open>issued e t b qs\<close>: in the history \<open>qs\<close> tenant \<open>t\<close>'s backend answered a handshake that was made under
  \<open>t\<close>'s credential with session id \<open>b\<close>.\<close>

definition issued :: "env \<Rightarrow> Tenant \<Rightarrow> string \<Rightarrow> breq list \<Rightarrow> bool" where
  "issued e t b qs \<longleftrightarrow>
     (\<exists>pre q post w body. qs = pre @ q # post
        \<and> q = initialize_request e (newBackendClient (t_Backend t)) defaultInitParams (EffectiveCredential t) w
        \<and> post_answer (transport e pre q) = Inr (body, b))"

lemma issued_append: "issued e t b qs \<Longrightarrow> issued e t b (qs @ rs)"
  unfolding issued_def by (metis append_Cons append_assoc)

text \<open>A request made for tenant \<open>t\<close>; the session it carries, if any, satisfies \<open>P\<close>.\<close>

definition session_request :: "env \<Rightarrow> Tenant \<Rightarrow> (string \<Rightarrow> bool) \<Rightarrow> breq \<Rightarrow> bool" where
  "session_request e t P q \<longleftrightarrow>
     (\<exists>payload sid extra meth name w.
        q = client_request e (newBackendClient (t_Backend t)) payload sid (EffectiveCredential t) extra meth name w
        \<and> (sid \<noteq> [] \<longrightarrow> P sid))"

lemma session_request_mono: "session_request e t P q \<Longrightarrow> (\<And>b. P b \<Longrightarrow> Q b) \<Longrightarrow> session_request e t Q q"
  unfolding session_request_def by blast

text \<open>From world \<open>w\<close> to \<open>w'\<close> only requests for tenant \<open>t\<close> were sent, on sessions issued to it.\<close>

definition isolated :: "env \<Rightarrow> Tenant \<Rightarrow> io \<Rightarrow> io \<Rightarrow> bool" where
  "isolated e t w w' \<longleftrightarrow> sends (session_request e t (\<lambda>b. issued e t b (sent w'))) w w'"

lemma isolated_same: "sent w' = sent w \<Longrightarrow> isolated e t w w'"
  by (simp add: isolated_def sends_same)

lemma isolated_refl [simp]: "isolated e t w w"
  by (simp add: isolated_same)

lemma sends_prefix: "sends P w w' \<Longrightarrow> \<exists>qs. sent w' = sent w @ qs"
  unfolding sends_def by blast

lemma isolated_prefix: "isolated e t w w' \<Longrightarrow> \<exists>qs. sent w' = sent w @ qs"
  unfolding isolated_def by (rule sends_prefix)

lemma isolated_trans [trans]:
  assumes "isolated e t w w'" and "isolated e t w' w''"
  shows "isolated e t w w''"
proof -
  obtain qs where qs: "sent w'' = sent w' @ qs" using isolated_prefix [OF assms(2)] by blast
  have "sends (session_request e t (\<lambda>b. issued e t b (sent w''))) w w'"
    using assms(1) unfolding isolated_def qs
    by (rule sends_mono) (auto elim!: session_request_mono intro: issued_append)
  from this assms(2) [unfolded isolated_def] show ?thesis unfolding isolated_def by (rule sends_trans)
qed

lemma isolated_issued: "isolated e t w w' \<Longrightarrow> issued e u b (sent w) \<Longrightarrow> issued e u b (sent w')"
  using isolated_prefix issued_append by metis

lemma isolated_post:
  assumes "sid \<noteq> [] \<Longrightarrow> issued e t sid (sent w)"
  shows "isolated e t w (snd (post e (newBackendClient (t_Backend t)) payload sid (EffectiveCredential t) extra meth name w))"
proof (cases "url_parse (url_String (b_URL (t_Backend t)))")
  case (Inl err)
  then show ?thesis by (simp add: post_eq)
next
  case (Inr u)
  let ?q = "client_request e (newBackendClient (t_Backend t)) payload sid (EffectiveCredential t) extra meth name w"
  have "session_request e t (\<lambda>b. issued e t b (sent w @ [?q])) ?q"
    unfolding session_request_def using assms issued_append by blast
  with Inr show ?thesis by (simp add: post_eq Let_def isolated_def sends_one)
qed

lemma isolated_initialize:
  "isolated e t w (snd (initialize e (newBackendClient (t_Backend t)) p (EffectiveCredential t) w))"
  unfolding snd_initialize by (rule isolated_post) simp

lemma isolated_notify:
  "issued e t sid (sent w) \<Longrightarrow> isolated e t w (notifyInitialized e (newBackendClient (t_Backend t)) sid (EffectiveCredential t) w)"
  unfolding notifyInitialized_def Let_def by (rule isolated_post)

lemma isolated_listTools:
  "(sid \<noteq> [] \<Longrightarrow> issued e t sid (sent w)) \<Longrightarrow>
   isolated e t w (snd (listTools e (newBackendClient (t_Backend t)) sid (EffectiveCredential t) hs w))"
  using snd_listTools [of e "newBackendClient (t_Backend t)" sid "EffectiveCredential t" hs w] isolated_post by metis

lemma isolated_callTool:
  "(sid \<noteq> [] \<Longrightarrow> issued e t sid (sent w)) \<Longrightarrow>
   isolated e t w (snd (callTool e (newBackendClient (t_Backend t)) sid (EffectiveCredential t) p hs n w))"
  using snd_callTool [of e "newBackendClient (t_Backend t)" sid "EffectiveCredential t" p hs n w] isolated_post isolated_refl
  by metis

text \<open>A successful handshake issues the session it returns.\<close>

lemma initialize_issued:
  assumes "initialize e (newBackendClient (t_Backend t)) defaultInitParams (EffectiveCredential t) w = (Inr (sid, res), w')"
  shows "issued e t sid (sent w')"
proof -
  define c where "c = newBackendClient (t_Backend t)"
  define payload where "payload = Marshal_request \<lparr>rq_JSONRPC = ''2.0'', rq_Method = ''initialize'',
      rq_Params = Some defaultInitParams, rq_ID = Some (JNum ''1'')\<rparr>"
  define q where "q = client_request e c payload [] (EffectiveCredential t) [] ''initialize'' [] w"
  obtain body where p: "post e c payload [] (EffectiveCredential t) [] ''initialize'' [] w = (Inr (body, sid), w')"
    using assms by (auto simp: initialize_def c_def payload_def Let_def split: prod.splits sum.splits option.splits if_splits)
  then have "post_answer (transport e (sent w) q) = Inr (body, sid)" and "w' = w\<lparr>sent := sent w @ [q]\<rparr>"
    by (auto simp: post_eq q_def Let_def split: sum.splits)
  moreover have "q = initialize_request e c defaultInitParams (EffectiveCredential t) w"
    by (simp add: q_def initialize_request_def payload_def)
  ultimately show ?thesis unfolding issued_def c_def by fastforce
qed

lemma isolated_opened: "issued e t sid (sent w) \<Longrightarrow> isolated e t w (opened e t sid w)"
  by (simp add: opened_def isolated_notify)

lemma isolated_init_pair:
  "initialize e (newBackendClient (t_Backend t)) p (EffectiveCredential t) w = (x, w') \<Longrightarrow> isolated e t w w'"
  using isolated_initialize [of e t w p] by simp

section \<open>Catalogs\<close>

lemma fetch_isolated:
  assumes "cat_backend c = t_Backend t" and "cat_cred c = EffectiveCredential t"
  shows "isolated e t w (snd (fetch e c w))"
proof (cases "Stateless (t_Backend t)")
  case True
  then show ?thesis by (simp add: fetch_def Let_def assms isolated_listTools)
next
  case False
  obtain x w1 where i: "initialize e (newBackendClient (t_Backend t)) defaultInitParams (EffectiveCredential t) w = (x, w1)"
    by fastforce
  have 1: "isolated e t w w1" using i by (rule isolated_init_pair)
  show ?thesis
  proof (cases x)
    case (Inl err)
    with False i 1 show ?thesis by (simp add: fetch_def Let_def assms)
  next
    case (Inr y)
    then obtain sid res where x: "x = Inr (sid, res)" by (cases y) auto
    then have iss: "issued e t sid (sent w1)" using initialize_issued i by simp
    note 1
    also have "isolated e t w1 (opened e t sid w1)" using iss by (rule isolated_opened)
    also have "isolated e t \<dots> (snd (listTools e (newBackendClient (t_Backend t)) sid (EffectiveCredential t) (cat_headers c) (opened e t sid w1)))"
      using iss isolated_issued [OF isolated_opened [OF iss]] by (intro isolated_listTools)
    finally show ?thesis using False i x by (simp add: fetch_def Let_def assms opened_def)
  qed
qed

lemma cat_get_isolated:
  assumes "cat_backend c = t_Backend t" and "cat_cred c = EffectiveCredential t"
  shows "isolated e t w (snd (snd (cat_get e c w)))"
proof -
  have "isolated e t w (after_test c w)" by (rule isolated_same) simp
  also have "isolated e t (after_test c w) (snd (fetch e c (after_test c w)))"
    using assms by (rule fetch_isolated)
  finally have "isolated e t w (snd (fetch e c (after_test c w)))" .
  moreover have "isolated e t w (x\<lparr>ticks := n\<rparr>) = isolated e t w x" for x n
    by (simp add: isolated_def sends_def)
  ultimately show ?thesis
    by (simp add: cat_get_eq Let_def isolated_same split: sum.split)
qed

text \<open>Every catalog is some tenant's view, and every tenant's index is that of a catalog.\<close>

definition catalogs_ok :: "Registry \<Rightarrow> Catalogs \<Rightarrow> bool" where
  "catalogs_ok reg cs \<longleftrightarrow>
     (\<forall>c \<in> set (unique cs). \<exists>t \<in> set (Tenants reg). cat_backend c = t_Backend t \<and> cat_cred c = EffectiveCredential t)
     \<and> (\<forall>i n. map_of (cs_byTenant cs) i = Some n \<longrightarrow> n < length (unique cs))"

lemma NewCatalogs_fold_ok:
  assumes "set ts \<subseteq> set (Tenants reg)" and "catalogs_ok reg cs" and "\<forall>k n. map_of bk k = Some n \<longrightarrow> n < length (unique cs)"
  shows "catalogs_ok reg (snd (fold (addTenant ttl) ts (bk, cs)))"
  using assms
proof (induction ts arbitrary: bk cs)
  case (Cons t ts)
  show ?case
  proof (cases "map_of bk (viewKey t)")
    case None
    let ?cs = "cs\<lparr>unique := unique cs @ [newCatalog (t_Backend t) (EffectiveCredential t) (t_Headers t) ttl],
        cs_byTenant := gomap_set (t_ID t) (length (unique cs)) (cs_byTenant cs)\<rparr>"
    have "catalogs_ok reg ?cs"
      using Cons.prems(1,2) by (auto simp: catalogs_ok_def newCatalog_def update_conv' less_SucI split: if_splits)
    moreover have "\<forall>k n. map_of (gomap_set (viewKey t) (length (unique cs)) bk) k = Some n \<longrightarrow> n < length (unique ?cs)"
      using Cons.prems(3) by (auto simp: update_conv' less_SucI split: if_splits)
    ultimately show ?thesis
      using Cons.IH [of ?cs "gomap_set (viewKey t) (length (unique cs)) bk"] Cons.prems(1) None
      by (simp add: addTenant_def Let_def)
  next
    case (Some n)
    let ?cs = "cs\<lparr>cs_byTenant := gomap_set (t_ID t) n (cs_byTenant cs)\<rparr>"
    have "catalogs_ok reg ?cs"
      using Cons.prems Some by (auto simp: catalogs_ok_def update_conv' split: if_splits simp del: map_of_eq_Some_iff)
    with Cons.IH [of ?cs bk] Cons.prems Some show ?thesis by (simp add: addTenant_def Let_def)
  qed
qed simp

lemma NewCatalogs_ok: "catalogs_ok reg (NewCatalogs reg ttl)"
  unfolding NewCatalogs_def by (rule NewCatalogs_fold_ok) (simp_all add: catalogs_ok_def)

lemma catalogGet_step:
  assumes "catalogs_ok reg cs" and "i < length (unique cs)"
  shows "catalogs_ok reg (fst (snd (catalogGet e i cs w)))"
    and "\<exists>t \<in> set (Tenants reg). isolated e t w (snd (snd (catalogGet e i cs w)))"
proof -
  obtain r c w1 where g: "cat_get e (unique cs ! i) w = (r, c, w1)" by (metis prod_cases3)
  have "unique cs ! i \<in> set (unique cs)" using assms(2) by simp
  then obtain t where t: "t \<in> set (Tenants reg)" "cat_backend (unique cs ! i) = t_Backend t" "cat_cred (unique cs ! i) = EffectiveCredential t"
    using assms(1) unfolding catalogs_ok_def by blast
  from cat_get_isolated [OF t(2,3), of e w] t(1) g
  show "\<exists>t \<in> set (Tenants reg). isolated e t w (snd (snd (catalogGet e i cs w)))" by (auto simp: catalogGet_def)
  have "cat_backend c = t_Backend t" "cat_cred c = EffectiveCredential t"
    using cat_get_view [of "unique cs ! i" e w] g t by (simp_all add: same_view_def)
  then show "catalogs_ok reg (fst (snd (catalogGet e i cs w)))"
    using assms t(1) g set_update_subset_insert [of "unique cs" i c]
    by (auto simp: catalogGet_def catalogs_ok_def)
qed

section \<open>The traffic of the proxy\<close>

definition teardown_req :: "Tenant \<Rightarrow> string \<Rightarrow> breq" where
  "teardown_req t b =
     applyAuth (newBackendClient (t_Backend t))
       \<lparr>bmethod = ''DELETE'', burl = url_String (b_URL (t_Backend t)), bheaders = Header_Set mcpSessionHeader b [], bpayload = None\<rparr>
       (EffectiveCredential t) []"

text \<open>The discovery of the key set, which happens before the proxy serves requests.\<close>

definition startup_request :: "breq \<Rightarrow> bool" where
  "startup_request q \<longleftrightarrow> (\<exists>base. q = discovery_request base)"

text \<open>A request for a registered tenant: to that tenant's backend, with that tenant's credential, and on no
  session but one that this backend issued for this tenant.\<close>

definition tenant_traffic :: "env \<Rightarrow> Registry \<Rightarrow> breq list \<Rightarrow> breq \<Rightarrow> bool" where
  "tenant_traffic e reg qs q \<longleftrightarrow>
     (\<exists>t \<in> set (Tenants reg).
        session_request e t (\<lambda>b. issued e t b qs) q \<or> (\<exists>b. q = teardown_req t b \<and> issued e t b qs))"

definition traffic_ok :: "env \<Rightarrow> Registry \<Rightarrow> breq list \<Rightarrow> bool" where
  "traffic_ok e reg qs \<longleftrightarrow> (\<forall>q \<in> set qs. startup_request q \<or> tenant_traffic e reg qs q)"

lemma tenant_traffic_append: "tenant_traffic e reg qs q \<Longrightarrow> tenant_traffic e reg (qs @ rs) q"
  unfolding tenant_traffic_def
  by (elim bexE disjE) (blast intro: issued_append session_request_mono [where P = "\<lambda>b. issued e t b qs" for t])+

lemma traffic_append:
  assumes "traffic_ok e reg qs" and "\<forall>q \<in> set rs. tenant_traffic e reg (qs @ rs) q"
  shows "traffic_ok e reg (qs @ rs)"
  using assms unfolding traffic_ok_def by (auto intro: tenant_traffic_append)

lemma traffic_isolated:
  assumes "traffic_ok e reg (sent w)" and "t \<in> set (Tenants reg)" and "isolated e t w w'"
  shows "traffic_ok e reg (sent w')"
proof -
  obtain qs where qs: "sent w' = sent w @ qs" "list_all (session_request e t (\<lambda>b. issued e t b (sent w'))) qs"
    using assms(3) unfolding isolated_def sends_def by blast
  then show ?thesis
    using traffic_append [OF assms(1), of qs] assms(2) by (auto simp: list_all_iff tenant_traffic_def)
qed

text \<open>One step of the catalogs: traffic stays in order and the history only grows.\<close>

definition catalog_step :: "env \<Rightarrow> Registry \<Rightarrow> io \<Rightarrow> Catalogs \<Rightarrow> io \<Rightarrow> bool" where
  "catalog_step e reg w cs' w' \<longleftrightarrow>
     catalogs_ok reg cs' \<and> (\<exists>qs. sent w' = sent w @ qs) \<and> (traffic_ok e reg (sent w) \<longrightarrow> traffic_ok e reg (sent w'))"

lemma catalog_step_trans: "catalog_step e reg w cs w1 \<Longrightarrow> catalog_step e reg w1 cs' w2 \<Longrightarrow> catalog_step e reg w cs' w2"
  unfolding catalog_step_def by auto

lemma catalogGet_traffic:
  assumes "catalogs_ok reg cs" and "i < length (unique cs)" and "catalogGet e i cs w = (r, cs1, w1)"
  shows "catalog_step e reg w cs1 w1"
  using catalogGet_step [OF assms(1,2), of e w] assms(3) traffic_isolated [of e reg w] isolated_prefix
  by (auto simp: catalog_step_def)

lemma catalogGet_length: "catalogGet e i cs w = (r, cs1, w1) \<Longrightarrow> length (unique cs1) = length (unique cs)"
  using same_view_catalogGet [of e i cs w] by simp

lemma warmLoop_traffic:
  "catalogs_ok reg cs \<Longrightarrow> \<forall>i \<in> set is. i < length (unique cs) \<Longrightarrow>
   catalog_step e reg w (fst (snd (warmLoop e is cs w))) (snd (snd (warmLoop e is cs w)))"
proof (induction "is" arbitrary: cs w)
  case Nil
  then show ?case by (simp add: catalog_step_def)
next
  case (Cons i "is")
  obtain r cs1 w1 where g: "catalogGet e i cs w = (r, cs1, w1)" by (metis prod_cases3)
  obtain errs cs2 w2 where l: "warmLoop e is cs1 w1 = (errs, cs2, w2)" by (metis prod_cases3)
  have 1: "catalog_step e reg w cs1 w1" using Cons.prems g by (intro catalogGet_traffic) auto
  then have "catalog_step e reg w1 cs2 w2"
    using Cons.IH [of cs1 w1] Cons.prems l catalogGet_length [OF g] by (simp add: catalog_step_def)
  with 1 show ?case using g l by (auto intro: catalog_step_trans)
qed

lemma toolsLoop_traffic:
  "catalogs_ok reg cs \<Longrightarrow>
   catalog_step e reg w (fst (snd (snd (toolsLoop e ts cs w)))) (snd (snd (snd (toolsLoop e ts cs w))))"
proof (induction ts arbitrary: cs w)
  case Nil
  then show ?case by (simp add: catalog_step_def)
next
  case (Cons t ts)
  show ?case
  proof (cases "map_of (cs_byTenant cs) (t_ID t)")
    case None
    with Cons show ?thesis by simp
  next
    case (Some i)
    obtain r cs1 w1 where g: "catalogGet e i cs w = (r, cs1, w1)" by (metis prod_cases3)
    obtain out errs cs2 w2 where l: "toolsLoop e ts cs1 w1 = (out, errs, cs2, w2)" by (metis prod_cases4)
    have "i < length (unique cs)" using Cons.prems Some by (simp add: catalogs_ok_def del: map_of_eq_Some_iff)
    then have 1: "catalog_step e reg w cs1 w1" using Cons.prems g by (intro catalogGet_traffic)
    then have "catalog_step e reg w1 cs2 w2" using Cons.IH [of cs1 w1] l by (simp add: catalog_step_def)
    with 1 Some g l show ?thesis by (auto intro: catalog_step_trans split: sum.split)
  qed
qed

lemma toolsFor_traffic:
  "catalogs_ok reg cs \<Longrightarrow> toolsFor e ts cs w = (x, cs', w') \<Longrightarrow> catalog_step e reg w cs' w'"
  using toolsLoop_traffic [of reg cs e w ts] by (auto simp: toolsFor_def split: prod.splits if_splits)

lemma warm_traffic: "catalogs_ok reg cs \<Longrightarrow> warm e cs w = (x, cs', w') \<Longrightarrow> catalog_step e reg w cs' w'"
  using warmLoop_traffic [of reg cs "[0..<length (unique cs)]" e w] by (simp add: warm_def)

section \<open>The sessions\<close>

definition issued_for :: "env \<Rightarrow> Registry \<Rightarrow> breq list \<Rightarrow> string \<Rightarrow> string \<Rightarrow> bool" where
  "issued_for e reg qs i b \<longleftrightarrow> (\<exists>t \<in> set (Tenants reg). t_ID t = i \<and> issued e t b qs)"

lemma issued_for_append: "issued_for e reg qs i b \<Longrightarrow> issued_for e reg (qs @ rs) i b"
  unfolding issued_for_def using issued_append by blast

lemma issued_for_tenant:
  "reg_wf reg \<Longrightarrow> t \<in> set (Tenants reg) \<Longrightarrow> issued_for e reg qs (t_ID t) b \<longleftrightarrow> issued e t b qs"
  unfolding issued_for_def
  using distinct_Tenants_ids [of reg] by (auto dest: distinct_map_inj_on inj_onD)

text \<open>The store holds only backend sessions that were issued for the tenant they are stored under.\<close>

definition store_issued :: "env \<Rightarrow> Registry \<Rightarrow> breq list \<Rightarrow> Store \<Rightarrow> bool" where
  "store_issued e reg qs st \<longleftrightarrow> store_wf st \<and> bindings.all_bound (issued_for e reg qs) st"

lemma store_issued_mono: "store_issued e reg qs st \<Longrightarrow> store_issued e reg (qs @ rs) st"
  unfolding store_issued_def using bindings.all_bound_mono issued_for_append by blast

lemma store_issued_Mint:
  "store_issued e reg qs st \<Longrightarrow> Mint e st w = (s, st', w') \<Longrightarrow> store_issued e reg qs st'"
  using bindings.all_bound_mint [of st _ "(e, w)" "s_ID s" st'] store_wf_ops(1) [of st e w]
  by (auto simp: store_issued_def)

lemma store_issued_Get:
  "store_issued e reg qs st \<Longrightarrow> Get e i st w = (x, st', w') \<Longrightarrow> store_issued e reg qs st'"
  using bindings.all_bound_lookup [of st _ "(e, w)" i "map_option BackendSID x" st'] store_wf_ops(2) [of st e i w]
  by (auto simp: store_issued_def)

lemma store_issued_Delete: "store_issued e reg qs st \<Longrightarrow> Delete i st = (x, st') \<Longrightarrow> store_issued e reg qs st'"
  using bindings.all_bound_remove [of st _ i "map_option BackendSID x" st'] store_wf_ops(4) [of st i]
  by (auto simp: store_issued_def)

lemma store_issued_Set:
  "store_issued e reg qs st \<Longrightarrow> issued_for e reg qs t b \<Longrightarrow> store_issued e reg qs (fst (SetBackendSID e i t b st w))"
  using bindings.all_bound_bind [of st _ t b "(e, w)" i] store_wf_ops(3) [of st e i t b w]
  by (auto simp: store_issued_def)

lemma store_issued_Get_sid:
  "store_issued e reg qs st \<Longrightarrow> Get e i st w = (Some sess, st', w') \<Longrightarrow> BackendSID sess t = Some b \<Longrightarrow> issued_for e reg qs t b"
  using bindings.handed_out [of st _ "BackendSID sess" t b "(e, w)" i st']
  by (auto simp: store_issued_def)

lemma store_issued_Delete_sid:
  "store_issued e reg qs st \<Longrightarrow> Delete i st = (Some sess, st') \<Longrightarrow> BackendSID sess t = Some b \<Longrightarrow> issued_for e reg qs t b"
  using bindings.handed_out [of st _ "BackendSID sess" t b undefined i st']
  by (auto simp: store_issued_def)

section \<open>The invariant of the proxy\<close>

definition task_ok :: "env \<Rightarrow> Registry \<Rightarrow> breq list \<Rightarrow> Tenant \<times> string \<Rightarrow> bool" where
  "task_ok e reg qs x \<longleftrightarrow> fst x \<in> set (Tenants reg) \<and> snd x \<noteq> [] \<and> issued e (fst x) (snd x) qs"

definition proxy_inv :: "env \<Rightarrow> Handler \<Rightarrow> Proxy \<Rightarrow> bool" where
  "proxy_inv e h s \<longleftrightarrow>
     store_issued e (h_Registry h) (sent (p_io s)) (p_sessions s)
     \<and> list_all (task_ok e (h_Registry h) (sent (p_io s))) (p_tasks s)
     \<and> catalogs_ok (h_Registry h) (p_catalog s)
     \<and> traffic_ok e (h_Registry h) (sent (p_io s))"

lemma proxy_invI:
  assumes "store_issued e (h_Registry h) (sent (p_io s)) (p_sessions s)"
    and "list_all (task_ok e (h_Registry h) (sent (p_io s))) (p_tasks s)"
    and "catalogs_ok (h_Registry h) (p_catalog s)" and "traffic_ok e (h_Registry h) (sent (p_io s))"
  shows "proxy_inv e h s"
  using assms by (simp add: proxy_inv_def)

lemma tasks_mono: "list_all (task_ok e reg qs) ts \<Longrightarrow> list_all (task_ok e reg (qs @ rs)) ts"
  by (auto simp: list_all_iff task_ok_def intro: issued_append)

text \<open>A step that keeps the invariant; the history only grows.\<close>

definition safe_step :: "env \<Rightarrow> Handler \<Rightarrow> Proxy \<Rightarrow> Proxy \<Rightarrow> bool" where
  "safe_step e h s s' \<longleftrightarrow> proxy_inv e h s' \<and> (\<exists>qs. sent (p_io s') = sent (p_io s) @ qs)"

lemma safe_stepD: "safe_step e h s s' \<Longrightarrow> proxy_inv e h s'"
  by (simp add: safe_step_def)

lemma safe_refl: "proxy_inv e h s \<Longrightarrow> safe_step e h s s"
  by (simp add: safe_step_def)

lemma safe_trans: "safe_step e h s s' \<Longrightarrow> safe_step e h s' s'' \<Longrightarrow> safe_step e h s s''"
  by (auto simp: safe_step_def)

lemma proxy_inv_obs [simp]: "proxy_inv e h (s\<lparr>p_obs := ob\<rparr>) = proxy_inv e h s"
  by (simp add: proxy_inv_def)

lemma safe_obs [simp]: "safe_step e h s (s'\<lparr>p_obs := ob\<rparr>) = safe_step e h s s'"
  by (simp add: safe_step_def)

text \<open>The store and the world moved on, with requests for one tenant only.\<close>

lemma safe_isolated:
  assumes "proxy_inv e h s" and "t \<in> set (Tenants (h_Registry h))" and "isolated e t (p_io s) w"
    and "store_issued e (h_Registry h) (sent w) st"
  shows "safe_step e h s (s\<lparr>p_sessions := st, p_io := w\<rparr>)"
proof -
  obtain qs where qs: "sent w = sent (p_io s) @ qs" using isolated_prefix [OF assms(3)] by blast
  from assms(1) show ?thesis
    using assms(4) traffic_isolated [OF _ assms(2,3)] qs tasks_mono
    by (auto intro!: proxy_invI simp: safe_step_def proxy_inv_def)
qed

lemma safe_io:
  assumes "proxy_inv e h s" and "t \<in> set (Tenants (h_Registry h))" and "isolated e t (p_io s) w"
  shows "safe_step e h s (s\<lparr>p_io := w\<rparr>)"
proof -
  obtain qs where "sent w = sent (p_io s) @ qs" using isolated_prefix [OF assms(3)] by blast
  then have "store_issued e (h_Registry h) (sent w) (p_sessions s)"
    using assms(1) store_issued_mono by (auto simp: proxy_inv_def)
  from safe_isolated [OF assms this] show ?thesis by simp
qed

lemma safe_catalog:
  assumes "proxy_inv e h s" and "catalog_step e (h_Registry h) (p_io s) cs w"
  shows "safe_step e h s (s\<lparr>p_catalog := cs, p_io := w\<rparr>)"
proof -
  obtain qs where "sent w = sent (p_io s) @ qs" using assms(2) unfolding catalog_step_def by blast
  then show ?thesis
    using assms store_issued_mono tasks_mono
    by (auto intro!: proxy_invI simp: safe_step_def proxy_inv_def catalog_step_def)
qed

section \<open>Every step of a call is safe\<close>

text \<open>What a call in progress knows of backend sessions was issued for its tenant.\<close>

fun pc_ok :: "(string \<Rightarrow> bool) \<Rightarrow> pc \<Rightarrow> bool" where
  "pc_ok P (Confirm sid) = P sid"
| "pc_ok P (Bind sid) = P sid"
| "pc_ok P (Forward sid) = (sid = [] \<or> P sid)"
| "pc_ok P _ = True"

lemma pc_ok_mono: "pc_ok P pc \<Longrightarrow> (\<And>b. P b \<Longrightarrow> Q b) \<Longrightarrow> pc_ok Q pc"
  by (cases pc) auto

definition call_ok :: "env \<Rightarrow> Registry \<Rightarrow> breq list \<Rightarrow> Call \<times> pc \<Rightarrow> bool" where
  "call_ok e reg qs x \<longleftrightarrow>
     c_tenant (fst x) \<in> set (Tenants reg) \<and> pc_ok (\<lambda>b. issued e (c_tenant (fst x)) b qs) (snd x)"

lemma call_ok_append: "call_ok e reg qs x \<Longrightarrow> call_ok e reg (qs @ rs) x"
  unfolding call_ok_def using pc_ok_mono issued_append by metis

lemma forwardCall_isolated:
  "(sid \<noteq> [] \<Longrightarrow> issued e t sid (sent (p_io s))) \<Longrightarrow> isolated e t (p_io s) (p_io (snd (forwardCall e t sid i b hs n w s)))"
  unfolding forwardCall_io by (rule isolated_callTool)

lemma forwardCall_state: "snd (forwardCall e t sid i b hs n w s) = s\<lparr>p_io := p_io (snd (forwardCall e t sid i b hs n w s))\<rparr>"
  by (simp add: forwardCall_def split: prod.split option.split sum.split)

lemma Lookup_safe:
  assumes "proxy_inv e h s" and "reg_wf (h_Registry h)" and t: "c_tenant c \<in> set (Tenants (h_Registry h))"
  shows "safe_step e h s (snd (call_step e c Lookup s))
    \<and> pc_ok (\<lambda>b. issued e (c_tenant c) b (sent (p_io s))) (fst (call_step e c Lookup s))"
proof (cases "Stateless (t_Backend (c_tenant c))")
  case True
  then show ?thesis using assms(1) by (simp add: safe_refl)
next
  case False
  obtain x st io where g: "Get e (Header_Get (hheaders (c_request c)) mcpSessionHeader) (p_sessions s) (p_io s) = (x, st, io)"
    by (metis prod_cases3)
  have st0: "store_issued e (h_Registry h) (sent (p_io s)) (p_sessions s)" using assms(1) by (simp add: proxy_inv_def)
  have sent: "sent io = sent (p_io s)" using store_sent(2) g by (metis snd_conv)
  have iso: "isolated e (c_tenant c) (p_io s) io" by (rule isolated_same [OF sent])
  have "store_issued e (h_Registry h) (sent io) st" using store_issued_Get [OF st0 g] sent by simp
  then have "safe_step e h s (s\<lparr>p_sessions := st, p_io := io\<rparr>)" by (rule safe_isolated [OF assms(1) t iso])
  moreover have "issued e (c_tenant c) sid (sent (p_io s))"
    if "x = Some sess" "BackendSID sess (t_ID (c_tenant c)) = Some sid" for sess sid
    using store_issued_Get_sid [OF st0 g [unfolded that(1)] that(2)] issued_for_tenant [OF assms(2) t] by simp
  ultimately show ?thesis using False g by (auto split: option.split)
qed

lemma Open_safe:
  assumes "proxy_inv e h s" and t: "c_tenant c \<in> set (Tenants (h_Registry h))"
  shows "safe_step e h s (snd (call_step e c Open s))
    \<and> pc_ok (\<lambda>b. issued e (c_tenant c) b (sent (p_io (snd (call_step e c Open s))))) (fst (call_step e c Open s))"
proof -
  obtain x io where i: "initialize e (newBackendClient (t_Backend (c_tenant c))) defaultInitParams
      (EffectiveCredential (c_tenant c)) (p_io s) = (x, io)" by fastforce
  have "safe_step e h s (s\<lparr>p_io := io\<rparr>)" by (rule safe_io [OF assms isolated_init_pair [OF i]])
  moreover have "issued e (c_tenant c) sid (sent io)" if "x = Inr (sid, res)" for sid res
    using initialize_issued i [unfolded that] by blast
  ultimately show ?thesis using i by (auto split: sum.split)
qed

lemma call_step_safe:
  assumes inv: "proxy_inv e h s" and wf: "reg_wf (h_Registry h)"
    and ok: "call_ok e (h_Registry h) (sent (p_io s)) (c, pc)"
    and step: "call_step e c pc s = (pc', s')"
  shows "safe_step e h s s' \<and> call_ok e (h_Registry h) (sent (p_io s')) (c, pc')"
proof -
  have t: "c_tenant c \<in> set (Tenants (h_Registry h))" using ok by (simp add: call_ok_def)
  show ?thesis
  proof (cases pc)
    case Lookup
    have "safe_step e h s s'" and pc': "pc_ok (\<lambda>b. issued e (c_tenant c) b (sent (p_io s))) pc'"
      using Lookup_safe [OF inv wf t] step Lookup by auto
    moreover obtain qs where "sent (p_io s') = sent (p_io s) @ qs" using calculation(1) unfolding safe_step_def by blast
    ultimately show ?thesis using t pc_ok_mono [OF pc'] issued_append by (simp add: call_ok_def)
  next
    case Open
    then show ?thesis using Open_safe [OF inv t] step t by (auto simp: call_ok_def)
  next
    case (Confirm sid)
    then have "issued e (c_tenant c) sid (sent (p_io s))" using ok by (simp add: call_ok_def)
    then have iso: "isolated e (c_tenant c) (p_io s) (p_io s')"
      using step Confirm isolated_notify by fastforce
    then show ?thesis
      using safe_io [OF inv t iso] step Confirm ok isolated_issued [OF iso] by (auto simp: call_ok_def)
  next
    case (Bind sid)
    let ?x = "SetBackendSID e (Header_Get (hheaders (c_request c)) mcpSessionHeader) (t_ID (c_tenant c)) sid (p_sessions s) (p_io s)"
    have iss: "issued e (c_tenant c) sid (sent (p_io s))" using ok Bind by (simp add: call_ok_def)
    have s': "s' = s\<lparr>p_sessions := fst ?x, p_io := snd ?x\<rparr>" "pc' = Forward sid"
      using step Bind by (auto split: prod.splits)
    have sent: "sent (snd ?x) = sent (p_io s)" by simp
    have "store_issued e (h_Registry h) (sent (p_io s)) (fst ?x)"
      using store_issued_Set issued_for_tenant [OF wf t] iss inv by (simp add: proxy_inv_def)
    then show ?thesis
      using safe_isolated [OF inv t isolated_same [OF sent]] sent iss t by (simp add: s' call_ok_def)
  next
    case (Forward sid)
    have s': "s' = snd (forwardCall e (c_tenant c) sid (c_id c) (c_bytes c) (c_headers c) (c_name c) (c_resp c) s)"
      and "\<exists>r b. pc' = Record r b"
      using step Forward by (auto split: prod.splits)
    moreover have "isolated e (c_tenant c) (p_io s) (p_io s')"
      unfolding s' using ok Forward by (intro forwardCall_isolated) (auto simp: call_ok_def)
    ultimately show ?thesis
      using safe_io [OF inv t] forwardCall_state t by (metis call_ok_def fst_conv pc_ok.simps(6) snd_conv)
  next
    case (Record resp b)
    then show ?thesis using step t safe_refl [OF inv] by (auto simp: call_ok_def)
  next
    case (Done resp)
    then show ?thesis using step t safe_refl [OF inv] by (auto simp: call_ok_def)
  qed
qed

lemma call_run_safe:
  "proxy_inv e h s \<Longrightarrow> reg_wf (h_Registry h) \<Longrightarrow> call_ok e (h_Registry h) (sent (p_io s)) (c, pc) \<Longrightarrow>
   safe_step e h s (snd (call_run e c n (pc, s)))"
proof (induction n arbitrary: pc s)
  case 0
  then show ?case by (simp add: safe_refl)
next
  case (Suc n)
  obtain pc' s' where step: "call_step e c pc s = (pc', s')" by fastforce
  have "safe_step e h s s'" and "call_ok e (h_Registry h) (sent (p_io s')) (c, pc')"
    using call_step_safe [OF Suc.prems step] by auto
  then show ?case using Suc.IH [OF safe_stepD Suc.prems(2)] step by (auto intro: safe_trans)
qed

lemma begin_call_ok:
  assumes "reg_wf (h_Registry h)" and "begin_call h e lib r req w s = Some c"
  shows "call_ok e (h_Registry h) qs (c, Lookup)"
  using assms routed_tenant [OF assms(1)] by (auto simp: begin_call_def call_ok_def split: option.splits)

lemma admitted_ok:
  assumes "reg_wf (h_Registry h)" and "arrive h e lib r req w = Inr (a, pc)" and "route_steps h e a pc css = Routed c"
  shows "call_ok e (h_Registry h) qs (c, Lookup)"
  using admitted_tenant(1) [OF assms] by (simp add: call_ok_def eligible_def set_AuthorizedTenants)

section \<open>Every request is safe\<close>

lemma handleToolsCall_safe:
  assumes "proxy_inv e h s" and "reg_wf (h_Registry h)"
  shows "safe_step e h s (snd (handleToolsCall h e lib r req w s))"
proof (cases "begin_call h e lib r req w s")
  case None
  then have "routed h e lib r req (p_catalog s) = None" by (auto simp: begin_call_def split: option.splits)
  then show ?thesis using assms(1) by (simp add: handleToolsCall_state Let_def toolsCall_unrouted safe_refl)
next
  case (Some c)
  from call_run_safe [OF assms begin_call_ok [OF assms(2) Some], of 6] show ?thesis
    unfolding call_run_handle [OF Some] by (simp add: case_prod_beta)
qed

lemma handleToolsList_safe:
  assumes "proxy_inv e h s"
  shows "safe_step e h s (snd (handleToolsList h e lib r req w s))"
proof -
  define authorized where "authorized = (case Groups lib (h_Verifier h) r of
      Inl _ \<Rightarrow> [] | Inr groups \<Rightarrow> AuthorizedTenants (h_Registry h) groups)"
  define ts where "ts = (if authorized = [] then sort_key t_ID (Tenants (h_Registry h)) else authorized)"
  obtain x cs io where f: "toolsFor e ts (p_catalog s) (p_io s) = (x, cs, io)" by (metis prod_cases3)
  have "catalogs_ok (h_Registry h) (p_catalog s)" using assms by (simp add: proxy_inv_def)
  then have "safe_step e h s (s\<lparr>p_catalog := cs, p_io := io\<rparr>)"
    using safe_catalog [OF assms] toolsFor_traffic f by blast
  moreover have "snd (handleToolsList h e lib r req w s) = s\<lparr>p_catalog := cs, p_io := io\<rparr>"
    unfolding handleToolsList_def Let_def authorized_def [symmetric] ts_def [symmetric] f by (simp split: sum.split)
  ultimately show ?thesis by simp
qed

lemma handleInitialize_safe:
  assumes "proxy_inv e h s"
  shows "safe_step e h s (snd (handleInitialize h e req w s))"
proof (cases "AllStateless (h_Registry h)")
  case True
  then show ?thesis using assms by (simp add: handleInitialize_def Let_def safe_refl)
next
  case False
  obtain sess st io where m: "Mint e (p_sessions s) (p_io s) = (sess, st, io)" by (metis prod_cases3)
  have sent: "sent io = sent (p_io s)" using store_sent(1) m by (metis snd_conv)
  have "store_issued e (h_Registry h) (sent (p_io s)) st"
    using assms store_issued_Mint [OF _ m] by (simp add: proxy_inv_def)
  with False m sent assms show ?thesis
    by (simp add: handleInitialize_def safe_step_def proxy_inv_def)
qed

lemma handleDelete_safe:
  assumes "proxy_inv e h s" and "reg_wf (h_Registry h)"
  shows "safe_step e h s (snd (handleDelete h r s))"
proof (cases "AllStateless (h_Registry h)")
  case True
  then show ?thesis using assms by (simp add: handleDelete_def safe_refl)
next
  case False
  obtain o' st where d: "Delete (Header_Get (hheaders r) mcpSessionHeader) (p_sessions s) = (o', st)" by fastforce
  have st: "store_issued e (h_Registry h) (sent (p_io s)) st"
    using assms(1) store_issued_Delete [OF _ d] by (simp add: proxy_inv_def)
  have "task_ok e (h_Registry h) (sent (p_io s)) (t, b)"
    if "o' = Some sess" "t \<in> set (Tenants (h_Registry h))" "BackendSID sess (t_ID t) = Some b" "b \<noteq> []" for sess t b
  proof -
    have "issued_for e (h_Registry h) (sent (p_io s)) (t_ID t) b"
      using assms(1) d that(1,3) by (intro store_issued_Delete_sid [where sess = sess and t = "t_ID t"]) (simp_all add: proxy_inv_def)
    then show ?thesis using that issued_for_tenant [OF assms(2) that(2)] by (simp add: task_ok_def)
  qed
  with False d st assms(1) show ?thesis
    by (auto simp: handleDelete_def Let_def safe_step_def proxy_inv_def list_all_iff split: option.splits if_splits)
qed

lemma teardownBackend_eq:
  "teardownBackend e t b w =
     (case url_parse (url_String (b_URL (t_Backend t))) of Inl _ \<Rightarrow> w | Inr _ \<Rightarrow> w\<lparr>sent := sent w @ [teardown_req t b]\<rparr>)"
  by (simp add: teardownBackend_def NewRequest_def teardown_req_def http_Do_def Let_def split: sum.split)

lemma run_task_safe:
  assumes "proxy_inv e h s"
  shows "safe_step e h s (run_task e i s)"
proof (cases "i < length (p_tasks s)")
  case False
  then show ?thesis using assms by (simp add: run_task_def safe_refl)
next
  case True
  obtain t b where tb: "p_tasks s ! i = (t, b)" by fastforce
  then have "(t, b) \<in> set (p_tasks s)" using True nth_mem by metis
  then have t: "t \<in> set (Tenants (h_Registry h))" and iss: "issued e t b (sent (p_io s))"
    using assms by (auto simp: proxy_inv_def list_all_iff task_ok_def)
  let ?w = "teardownBackend e t b (p_io s)"
  obtain qs where qs: "sent ?w = sent (p_io s) @ qs" "set qs \<subseteq> {teardown_req t b}"
    by (cases "url_parse (url_String (b_URL (t_Backend t)))") (auto simp: teardownBackend_eq)
  have "traffic_ok e (h_Registry h) (sent ?w)"
    unfolding qs(1) using assms qs(2) t issued_append [OF iss]
    by (intro traffic_append) (auto simp: proxy_inv_def tenant_traffic_def)
  moreover have "set (take i (p_tasks s) @ drop (Suc i) (p_tasks s)) \<subseteq> set (p_tasks s)"
    by (auto dest: in_set_takeD in_set_dropD)
  moreover have "list_all (task_ok e (h_Registry h) (sent ?w)) (p_tasks s)"
    unfolding qs(1) using assms by (intro tasks_mono) (simp add: proxy_inv_def)
  moreover have "store_issued e (h_Registry h) (sent ?w) (p_sessions s)"
    unfolding qs(1) using assms by (intro store_issued_mono) (simp add: proxy_inv_def)
  ultimately show ?thesis
    using assms True tb qs(1) by (auto intro!: proxy_invI simp: safe_step_def run_task_def proxy_inv_def list_all_iff)
qed

lemma WarmCatalog_safe:
  assumes "proxy_inv e h s"
  shows "safe_step e h s (snd (WarmCatalog e s))"
proof -
  obtain x cs io where "warm e (p_catalog s) (p_io s) = (x, cs, io)" by (metis prod_cases3)
  moreover have "catalogs_ok (h_Registry h) (p_catalog s)" using assms by (simp add: proxy_inv_def)
  ultimately show ?thesis
    using safe_catalog [OF assms] warm_traffic by (auto simp: WarmCatalog_def)
qed

text \<open>The state changes of the endpoint are those of its handlers.\<close>

lemma ServeHTTP_state:
  "snd (ServeHTTP h e lib r s) \<in> {s, snd (handleDelete h r s)}
   \<or> (\<exists>req w. snd (ServeHTTP h e lib r s) \<in> {snd (handleInitialize h e req w s), snd (handleToolsList h e lib r req w s),
        snd (handleToolsCall h e lib r req w s)})"
proof -
  have "snd (handlePost h e lib r s) = s
      \<or> (\<exists>req w. snd (handlePost h e lib r s) \<in> {snd (handleInitialize h e req w s), snd (handleToolsList h e lib r req w s),
           snd (handleToolsCall h e lib r req w s)})"
    by (cases "Unmarshal_request_text (hbody r)") (auto simp: handlePost_def Let_def case_prod_beta)
  then show ?thesis by (auto simp: ServeHTTP_def case_prod_beta)
qed

lemma ServeHTTP_safe:
  assumes "proxy_inv e h s" and "reg_wf (h_Registry h)"
  shows "safe_step e h s (snd (ServeHTTP h e lib r s))"
proof -
  note handlers = safe_refl [OF assms(1)] handleDelete_safe [OF assms] handleInitialize_safe [OF assms(1)]
    handleToolsList_safe [OF assms(1)] handleToolsCall_safe [OF assms]
  from ServeHTTP_state [of h e lib r s] show ?thesis
    by (elim disjE exE insertE emptyE; simp only: handlers)
qed

section \<open>The proxy as a state machine\<close>

definition start_state :: "Handler \<Rightarrow> Observability \<Rightarrow> int \<Rightarrow> int \<Rightarrow> io \<Rightarrow> Proxy" where
  "start_state h ob idleTTL catTTL w =
     \<lparr>p_sessions = NewStore idleTTL, p_catalog = NewCatalogs (h_Registry h) catTTL, p_obs = ob, p_tasks = [], p_io = w\<rparr>"

text \<open>
  The states reachable from a start before which nothing but a discovery of the key set was sent, with
  the calls in progress. A step is a whole request, the run of a spawned teardown, a warming of the
  catalogs, the lookup of one catalog (by a listing or a warming in progress), the admission of a call whose handler then
  goes on in small steps, the record of a call that was not admitted, or one small step of any of the
  calls in progress. What the reads of an admission found in the catalogs is left open. The JWT library may answer differently at every request (tokens expire,
  keys rotate).
\<close>

inductive proxy_reach :: "Handler \<Rightarrow> env \<Rightarrow> Proxy \<Rightarrow> (Call \<times> pc) list \<Rightarrow> bool" for h e where
  start: "list_all startup_request (sent w) \<Longrightarrow> proxy_reach h e (start_state h ob idleTTL catTTL w) []"
| serve: "proxy_reach h e s cs \<Longrightarrow> proxy_reach h e (snd (ServeHTTP h e lib r s)) cs"
| task: "proxy_reach h e s cs \<Longrightarrow> proxy_reach h e (run_task e i s) cs"
| warm: "proxy_reach h e s cs \<Longrightarrow> proxy_reach h e (snd (WarmCatalog e s)) cs"
| refresh: "proxy_reach h e s cs \<Longrightarrow> i < length (unique (p_catalog s)) \<Longrightarrow>
    catalogGet e i (p_catalog s) (p_io s) = (r, cat, io) \<Longrightarrow> proxy_reach h e (s\<lparr>p_catalog := cat, p_io := io\<rparr>) cs"
| admit: "proxy_reach h e s cs \<Longrightarrow> arrive h e lib r req w = Inr (a, pc) \<Longrightarrow> route_steps h e a pc css = Routed c \<Longrightarrow>
    proxy_reach h e s (cs @ [(c, Lookup)])"
| counted: "proxy_reach h e s cs \<Longrightarrow> proxy_reach h e (s\<lparr>p_obs := RecordToolCall out (p_obs s)\<rparr>) cs"
| step: "proxy_reach h e s cs \<Longrightarrow> i < length cs \<Longrightarrow> cs ! i = (c, pc) \<Longrightarrow> call_step e c pc s = (pc', s') \<Longrightarrow>
    proxy_reach h e s' (cs[i := (c, pc')])"

text \<open>A call that is admitted at once.\<close>

lemma proxy_reach_call:
  assumes "proxy_reach h e s cs" and "begin_call h e lib r req w s = Some c"
  shows "proxy_reach h e s (cs @ [(c, Lookup)])"
  by (rule begin_call_admitted [OF assms(2)]) (rule proxy_reach.admit [OF assms(1)])

lemma start_inv:
  assumes "list_all startup_request (sent w)"
  shows "proxy_inv e h (start_state h ob idleTTL catTTL w)"
proof -
  have "bound_sid (NewStore idleTTL) i t = None" for i t by (simp add: bound_sid_def NewStore_def)
  then have "store_issued e (h_Registry h) (sent w) (NewStore idleTTL)"
    by (simp add: store_issued_def store_wf_New bindings.all_bound_def)
  then show ?thesis
    using assms NewCatalogs_ok by (simp add: proxy_inv_def start_state_def traffic_ok_def list_all_iff)
qed

lemma calls_mono: "safe_step e h s s' \<Longrightarrow> list_all (call_ok e reg (sent (p_io s))) cs \<Longrightarrow> list_all (call_ok e reg (sent (p_io s'))) cs"
  by (auto simp: safe_step_def list_all_iff call_ok_append)

lemma reach_inv:
  assumes "proxy_reach h e s cs" and wf: "reg_wf (h_Registry h)"
  shows "proxy_inv e h s \<and> list_all (call_ok e (h_Registry h) (sent (p_io s))) cs"
  using assms(1)
proof induction
  case (start w)
  then show ?case by (simp add: start_inv)
next
  case (serve s cs lib r)
  then show ?case using ServeHTTP_safe [OF _ wf] safe_stepD calls_mono by blast
next
  case (task s cs i)
  then show ?case using run_task_safe safe_stepD calls_mono by blast
next
  case (warm s cs)
  then show ?case using WarmCatalog_safe safe_stepD calls_mono by blast
next
  case (refresh s cs i r cat io)
  then have "safe_step e h s (s\<lparr>p_catalog := cat, p_io := io\<rparr>)"
    using safe_catalog catalogGet_traffic by (auto simp: proxy_inv_def)
  then show ?case using refresh.IH safe_stepD calls_mono by blast
next
  case (admit s cs lib r req w a pc css c)
  then show ?case using admitted_ok [OF wf] by simp
next
  case (counted s cs out)
  then show ?case by simp
next
  case (step s cs i c pc pc' s')
  have "call_ok e (h_Registry h) (sent (p_io s)) (c, pc)"
    using step by (metis list_all_length)
  then have "safe_step e h s s'" "call_ok e (h_Registry h) (sent (p_io s')) (c, pc')"
    using call_step_safe [OF _ wf _ step.hyps(4)] step.IH by blast+
  then show ?case
    using calls_mono step.IH safe_stepD set_update_subset_insert [of cs i "(c, pc')"] by (fastforce simp: list_all_iff)
qed

section \<open>A run of the proxy\<close>

text \<open>A backend that opens a session and answers every call; a client that initializes, calls a tool of the
  stateful tenant, and deletes its session; and the states after each of these requests.\<close>

definition quoted :: "string \<Rightarrow> string" where
  "quoted s = [CHR 0x22] @ s @ [CHR 0x22]"

definition demo_env :: env where
  "demo_env = quiet_env\<lparr>transport := \<lambda>_ q. Inr \<lparr>bstatus = 200,
     brheaders = [(''Content-Type'', ''application/json''), (''Mcp-Session-Id'', ''b-1'')],
     bbody = ''{'' @ quoted ''result'' @ '':{}}'', bread_err = False\<rparr>\<rparr>"

definition demo_post :: "string \<Rightarrow> string \<Rightarrow> hreq" where
  "demo_post sid body = \<lparr>hmethod = ''POST'',
     hheaders = [(''Authorization'', ''Bearer jwt''), (''Mcp-Session-Id'', sid)], hbody = body,
     hread_err = False, htls = False, hhost = ''proxy''\<rparr>"

definition demo_sid :: string where
  "demo_sid = hex_EncodeToString ''0123456789abcdef''"

definition body_initialize :: string where
  "body_initialize = ''{'' @ quoted ''method'' @ '':'' @ quoted ''initialize'' @ '','' @ quoted ''id'' @ '':1}''"

definition body_call :: string where
  "body_call = ''{'' @ quoted ''method'' @ '':'' @ quoted ''tools/call'' @ '','' @ quoted ''id'' @ '':2,'' @ quoted ''params''
     @ '':{'' @ quoted ''name'' @ '':'' @ quoted ''f'' @ '','' @ quoted ''arguments'' @ '':{'' @ quoted ''tenant'' @ '':'' @ quoted ''corp''
     @ ''}}}''"

definition demo_init :: Proxy where
  "demo_init = snd (ServeHTTP demo_handler demo_env example_lib (demo_post [] body_initialize)
     (start_state demo_handler new_obs 100 5 init_io))"

definition demo_called :: Proxy where
  "demo_called = snd (ServeHTTP demo_handler demo_env example_lib (demo_post demo_sid body_call) demo_init)"

definition demo_deleted :: Proxy where
  "demo_deleted = snd (ServeHTTP demo_handler demo_env example_lib ((demo_post demo_sid [])\<lparr>hmethod := ''DELETE''\<rparr>) demo_called)"

lemma demo_reach:
  "proxy_reach demo_handler demo_env demo_init []" "proxy_reach demo_handler demo_env demo_called []"
  "proxy_reach demo_handler demo_env demo_deleted []"
  unfolding demo_deleted_def demo_called_def demo_init_def
  by (intro proxy_reach.serve proxy_reach.start; simp add: init_io_def)+

lemma demo_handler_wf: "reg_wf (h_Registry demo_handler)"
  by (simp add: demo_handler_def demo_registry_wf)

lemma demo_called_facts:
  "bound_sid (p_sessions demo_called) demo_sid ''corp'' = Some ''b-1''" "length (sent (p_io demo_called)) = 3"
  by code_simp+

lemma demo_deleted_facts: "map (\<lambda>(t, b). (t_ID t, b)) (p_tasks demo_deleted) = [(''corp'', ''b-1'')]"
  by code_simp



text \<open>C11. In every reachable state the backend session stored for a client session and a tenant was issued
  for that tenant, and so was every backend session that is still to be torn down.\<close>

theorem session_isolation:
  assumes "proxy_reach h e s cs" and "reg_wf (h_Registry h)"
  shows "(bound_sid (p_sessions s) i t = Some b \<longrightarrow> issued_for e (h_Registry h) (sent (p_io s)) t b)
    \<and> list_all (task_ok e (h_Registry h) (sent (p_io s))) (p_tasks s)"
  using reach_inv [OF assms] by (simp add: proxy_inv_def store_issued_def bindings.all_bound_def)

theorem session_isolation_witness:
  "issued_for demo_env demo_registry (sent (p_io demo_called)) ''corp'' ''b-1''
   \<and> map (\<lambda>(t, b). (t_ID t, b)) (p_tasks demo_deleted) = [(''corp'', ''b-1'')]
   \<and> list_all (task_ok demo_env demo_registry (sent (p_io demo_deleted))) (p_tasks demo_deleted)"
  using session_isolation [OF demo_reach(2) demo_handler_wf, of demo_sid "''corp''" "''b-1''"] demo_called_facts(1)
    session_isolation [OF demo_reach(3) demo_handler_wf] demo_deleted_facts
  by (simp add: demo_handler_def)

end
