(* ===== verification/Noninterference.thy ===== *)
theory Noninterference
  imports Isolation
begin

text \<open>
  What a client can learn. Two worlds are compared that agree on what belongs to some tenants \<open>T\<close> and may
  differ in everything else: in what the other tenants' backends answer, in the other tenants' tool
  catalogs, in the sessions opened for them, in the requests sent for them, in the counters and in the
  pending teardowns. Clients whose tokens grant them tenants of \<open>T\<close> only get the same responses in both,
  request by request, and leave the worlds in agreement.
\<close>

section \<open>Worlds that look alike\<close>

text \<open>\<open>A\<close> is a class of requests that contains those made for the tenants of \<open>T\<close>: the environments answer
  them alike as long as they were sent the same of them before.\<close>

definition same_world :: "(breq \<Rightarrow> bool) \<Rightarrow> env \<Rightarrow> env \<Rightarrow> bool" where
  "same_world A e1 e2 \<longleftrightarrow> clock e1 = clock e2 \<and> random e1 = random e2 \<and> is_print e1 = is_print e2
     \<and> (\<forall>qs1 qs2. filter A qs1 = filter A qs2 \<longrightarrow>
          propagate e1 qs1 = propagate e2 qs2 \<and> (\<forall>q. A q \<longrightarrow> transport e1 qs1 q = transport e2 qs2 q))"

definition io_low :: "(breq \<Rightarrow> bool) \<Rightarrow> io \<Rightarrow> io \<Rightarrow> bool" where
  "io_low A w1 w2 \<longleftrightarrow> filter A (sent w1) = filter A (sent w2) \<and> ticks w1 = ticks w2 \<and> draws w1 = draws w2"

definition visible :: "(breq \<Rightarrow> bool) \<Rightarrow> env \<Rightarrow> Backend \<Rightarrow> string \<Rightarrow> bool" where
  "visible A e b cred \<longleftrightarrow> (\<forall>q. backend_request e b cred q \<longrightarrow> A q)"

definition session_low :: "Tenant set \<Rightarrow> Session \<Rightarrow> Session \<Rightarrow> bool" where
  "session_low T s1 s2 \<longleftrightarrow> s_ID s1 = s_ID s2 \<and> created s1 = created s2 \<and> lastSeen s1 = lastSeen s2
     \<and> (\<forall>t \<in> T. BackendSID s1 (t_ID t) = BackendSID s2 (t_ID t))"

definition store_low :: "Tenant set \<Rightarrow> Store \<Rightarrow> Store \<Rightarrow> bool" where
  "store_low T st1 st2 \<longleftrightarrow> store_wf st1 \<and> store_wf st2 \<and> st_ttl st1 = st_ttl st2
     \<and> (\<forall>i. rel_option (session_low T) (map_of (st_m st1) i) (map_of (st_m st2) i))"

definition catalogs_low :: "Tenant set \<Rightarrow> Catalogs \<Rightarrow> Catalogs \<Rightarrow> bool" where
  "catalogs_low T cs1 cs2 \<longleftrightarrow> cs_byTenant cs1 = cs_byTenant cs2
     \<and> (\<forall>t \<in> T. \<forall>i. map_of (cs_byTenant cs1) (t_ID t) = Some i \<longrightarrow>
          i < length (unique cs1) \<and> i < length (unique cs2) \<and> unique cs1 ! i = unique cs2 ! i
          \<and> cat_backend (unique cs1 ! i) = t_Backend t \<and> cat_cred (unique cs1 ! i) = EffectiveCredential t)"

definition low :: "(breq \<Rightarrow> bool) \<Rightarrow> Tenant set \<Rightarrow> Proxy \<Rightarrow> Proxy \<Rightarrow> bool" where
  "low A T s1 s2 \<longleftrightarrow> store_low T (p_sessions s1) (p_sessions s2) \<and> catalogs_low T (p_catalog s1) (p_catalog s2)
     \<and> io_low A (p_io s1) (p_io s2)"

text \<open>Two computations with an effect on the world that agree: the same result, and worlds that look alike.\<close>

definition agree :: "('w \<Rightarrow> 'w \<Rightarrow> bool) \<Rightarrow> 'a \<times> 'w \<Rightarrow> 'a \<times> 'w \<Rightarrow> bool" where
  "agree R x y \<longleftrightarrow> fst x = fst y \<and> R (snd x) (snd y)"

lemma agreeI [intro]: "a = b \<Longrightarrow> R w1 w2 \<Longrightarrow> agree R (a, w1) (b, w2)"
  by (simp add: agree_def)

lemma agreeE: "agree R x y \<Longrightarrow> (\<And>a w1 w2. x = (a, w1) \<Longrightarrow> y = (a, w2) \<Longrightarrow> R w1 w2 \<Longrightarrow> P) \<Longrightarrow> P"
  by (cases x; cases y) (auto simp: agree_def)

lemma agree2E:
  "agree (\<lambda>x y. P (fst x) (fst y) \<and> Q (snd x) (snd y)) x y \<Longrightarrow>
   (\<And>a b1 v1 b2 v2. x = (a, b1, v1) \<Longrightarrow> y = (a, b2, v2) \<Longrightarrow> P b1 b2 \<Longrightarrow> Q v1 v2 \<Longrightarrow> R) \<Longrightarrow> R"
  by (cases x; cases y) (auto simp: agree_def)

text \<open>Composition: what is done with the results of agreeing computations.\<close>

lemma agree_bind:
  "agree R x y \<Longrightarrow> (\<And>a w1 w2. R w1 w2 \<Longrightarrow> agree S (f a w1) (g a w2)) \<Longrightarrow>
   agree S (case x of (a, w) \<Rightarrow> f a w) (case y of (a, w) \<Rightarrow> g a w)"
  by (erule agreeE) simp

lemma if_agree: "(c \<Longrightarrow> agree R x1 x2) \<Longrightarrow> (\<not> c \<Longrightarrow> agree R y1 y2) \<Longrightarrow> agree R (if c then x1 else y1) (if c then x2 else y2)"
  by simp

section \<open>Calls to backends\<close>

lemma io_low_sent: "io_low A w1 w2 \<Longrightarrow> io_low A (w1\<lparr>sent := sent w1 @ [q]\<rparr>) (w2\<lparr>sent := sent w2 @ [q]\<rparr>)"
  by (simp add: io_low_def)

lemma io_low_ticks: "io_low A w1 w2 \<Longrightarrow> io_low A (w1\<lparr>ticks := n\<rparr>) (w2\<lparr>ticks := n\<rparr>)"
  by (simp add: io_low_def)

lemma post_agree:
  assumes "same_world A e1 e2" and "visible A e1 b cred" and "io_low A w1 w2"
  shows "agree (io_low A) (post e1 (newBackendClient b) p sid cred x m n w1) (post e2 (newBackendClient b) p sid cred x m n w2)"
proof -
  let ?q = "client_request e1 (newBackendClient b) p sid cred x m n w1"
  have "filter A (sent w1) = filter A (sent w2)" using assms(3) by (simp add: io_low_def)
  with assms(1) have same: "propagate e1 (sent w1) = propagate e2 (sent w2)"
    "A ?q \<Longrightarrow> transport e1 (sent w1) ?q = transport e2 (sent w2) ?q"
    unfolding same_world_def by blast+
  have "?q = client_request e2 (newBackendClient b) p sid cred x m n w2"
    by (simp add: client_request_def client_headers_def same(1))
  moreover have "A ?q" using assms(2) backend_requestI unfolding visible_def by blast
  ultimately show ?thesis
    using same(2) io_low_sent [OF assms(3)] assms(3) by (auto simp: post_eq Let_def agree_def split: sum.split)
qed

lemma initialize_agree:
  assumes "same_world A e1 e2" and "visible A e1 b cred" and "io_low A w1 w2"
  shows "agree (io_low A) (initialize e1 (newBackendClient b) p cred w1) (initialize e2 (newBackendClient b) p cred w2)"
  unfolding initialize_def Let_def
  by (rule agree_bind, rule post_agree [OF assms]) (auto simp: agree_def split: sum.split option.split)

lemma notifyInitialized_low:
  assumes "same_world A e1 e2" and "visible A e1 b cred" and "io_low A w1 w2"
  shows "io_low A (notifyInitialized e1 (newBackendClient b) sid cred w1) (notifyInitialized e2 (newBackendClient b) sid cred w2)"
  using post_agree [OF assms] by (simp add: notifyInitialized_def agree_def)

lemma listTools_agree:
  assumes "same_world A e1 e2" and "visible A e1 b cred" and "io_low A w1 w2"
  shows "agree (io_low A) (listTools e1 (newBackendClient b) sid cred hs w1) (listTools e2 (newBackendClient b) sid cred hs w2)"
  unfolding listTools_def Let_def
  by (rule agree_bind, rule post_agree [OF assms]) (auto simp: agree_def split: sum.split option.split)

lemma callTool_agree:
  assumes "same_world A e1 e2" and "visible A e1 b cred" and "io_low A w1 w2"
  shows "agree (io_low A) (callTool e1 (newBackendClient b) sid cred p hs n w1) (callTool e2 (newBackendClient b) sid cred p hs n w2)"
proof -
  have post: "agree (io_low A)
      (case post e1 (newBackendClient b) bs sid cred hs ''tools/call'' n w1 of
         (Inl err, w) \<Rightarrow> (Some (Inl err), w) | (Inr (body, _), w) \<Rightarrow> (Some (Inr body), w))
      (case post e2 (newBackendClient b) bs sid cred hs ''tools/call'' n w2 of
         (Inl err, w) \<Rightarrow> (Some (Inl err), w) | (Inr (body, _), w) \<Rightarrow> (Some (Inr body), w))" for bs
    by (rule agree_bind, rule post_agree [OF assms]) (auto simp: agree_def split: sum.split)
  show ?thesis unfolding callTool_def using assms(3) by (auto split: option.split sum.split intro: post)
qed

lemma forwardCall_agree:
  assumes "same_world A e1 e2" and "visible A e1 (t_Backend t) (EffectiveCredential t)" and "low A T s1 s2"
  shows "agree (low A T) (forwardCall e1 t sid i b hs n w s1) (forwardCall e2 t sid i b hs n w s2)"
proof -
  have "io_low A (p_io s1) (p_io s2)" using assms(3) by (simp add: low_def)
  note call = callTool_agree [OF assms(1,2) this]
  show ?thesis
    unfolding forwardCall_def
    by (rule agree_bind, rule call) (use assms(3) in \<open>auto simp: agree_def low_def split: option.split sum.split\<close>)
qed

section \<open>The session store\<close>

lemma store_lowI:
  "store_wf st1 \<Longrightarrow> store_wf st2 \<Longrightarrow> st_ttl st1 = st_ttl st2 \<Longrightarrow>
   (\<And>i. rel_option (session_low T) (map_of (st_m st1) i) (map_of (st_m st2) i)) \<Longrightarrow> store_low T st1 st2"
  by (simp add: store_low_def)

lemma store_low_at: "store_low T st1 st2 \<Longrightarrow> rel_option (session_low T) (map_of (st_m st1) i) (map_of (st_m st2) i)"
  by (simp add: store_low_def)

lemma reap_low:
  assumes "same_world A e1 e2" and "store_low T st1 st2" and "io_low A w1 w2"
  shows "store_low T (fst (reapLocked e1 st1 w1)) (fst (reapLocked e2 st2 w2))
    \<and> io_low A (snd (reapLocked e1 st1 w1)) (snd (reapLocked e2 st2 w2))"
proof -
  have wf: "store_wf st1" "store_wf st2" and ttl: "st_ttl st1 = st_ttl st2" using assms(2) by (auto simp: store_low_def)
  have now: "clock e1 (ticks w1) = clock e2 (ticks w2)" using assms(1,3) by (simp add: same_world_def io_low_def)
  have "rel_option (session_low T) (map_of (st_m (fst (reapLocked e1 st1 w1))) i) (map_of (st_m (fst (reapLocked e2 st2 w2))) i)" for i
  proof -
    have ok: "gomap_ok (st_m st1)" "gomap_ok (st_m st2)" using wf by (simp_all add: store_wf_def)
    from store_low_at [OF assms(2), of i] show ?thesis
      by (cases "map_of (st_m st1) i"; cases "map_of (st_m st2) i")
        (simp_all add: map_of_reap [OF ok(1)] map_of_reap [OF ok(2)] ttl now session_low_def del: map_of_eq_Some_iff)
  qed
  moreover have "io_low A (snd (reapLocked e1 st1 w1)) (snd (reapLocked e2 st2 w2))"
    using assms(3) ttl by (simp add: reapLocked_def time_Now_def io_low_def)
  ultimately show ?thesis using wf ttl store_wf_reap by (simp add: store_low_def)
qed

lemma store_low_update:
  assumes "store_low T st1 st2" and "session_low T s1 s2" and "s_ID s1 = i" and "gomap_ok (backendSID s1)" "gomap_ok (backendSID s2)"
  shows "store_low T (st1\<lparr>st_m := gomap_set i s1 (st_m st1)\<rparr>) (st2\<lparr>st_m := gomap_set i s2 (st_m st2)\<rparr>)"
proof (rule store_lowI)
  have "s_ID s2 = i" using assms(2,3) by (simp add: session_low_def)
  with assms show "store_wf (st1\<lparr>st_m := gomap_set i s1 (st_m st1)\<rparr>)" "store_wf (st2\<lparr>st_m := gomap_set i s2 (st_m st2)\<rparr>)"
    by (auto simp: store_low_def intro!: store_wf_update)
  fix j
  show "rel_option (session_low T) (map_of (st_m (st1\<lparr>st_m := gomap_set i s1 (st_m st1)\<rparr>)) j)
      (map_of (st_m (st2\<lparr>st_m := gomap_set i s2 (st_m st2)\<rparr>)) j)"
    using store_low_at [OF assms(1), of j] assms(2) by (cases "i = j") simp_all
qed (use assms(1) in \<open>simp add: store_low_def\<close>)

text \<open>Looking a session up gives sessions that look alike, or none in either world.\<close>

definition get_low :: "(breq \<Rightarrow> bool) \<Rightarrow> Tenant set \<Rightarrow> Session option \<times> Store \<times> io \<Rightarrow> Session option \<times> Store \<times> io \<Rightarrow> bool" where
  "get_low A T x y \<longleftrightarrow> rel_option (session_low T) (fst x) (fst y) \<and> store_low T (fst (snd x)) (fst (snd y))
     \<and> io_low A (snd (snd x)) (snd (snd y))"

lemma stored_ok: "store_wf st \<Longrightarrow> map_of (st_m st) i = Some s \<Longrightarrow> s_ID s = i \<and> gomap_ok (backendSID s)"
  by (auto simp: store_wf_def simp del: map_of_eq_Some_iff)

lemma BackendSID_seen [simp]: "BackendSID (s\<lparr>lastSeen := t\<rparr>) = BackendSID s"
  by (simp add: BackendSID_def fun_eq_iff)

lemma Get_low:
  assumes "same_world A e1 e2" and "store_low T st1 st2" and "io_low A w1 w2"
  shows "get_low A T (Get e1 i st1 w1) (Get e2 i st2 w2)"
proof -
  let ?r1 = "reapLocked e1 st1 w1" and ?r2 = "reapLocked e2 st2 w2"
  have st: "store_low T (fst ?r1) (fst ?r2)" and io: "io_low A (snd ?r1) (snd ?r2)"
    using reap_low [OF assms] by simp_all
  then have wf: "store_wf (fst ?r1)" "store_wf (fst ?r2)" by (simp_all add: store_low_def)
  have now: "clock e2 = clock e1" "ticks (snd ?r2) = ticks (snd ?r1)"
    using assms(1) io by (simp_all add: same_world_def io_low_def)
  from store_low_at [OF st, of i] show ?thesis
  proof (cases rule: option.rel_cases)
    case None
    with st io show ?thesis by (simp add: get_low_def Get_eq)
  next
    case (Some s1 s2)
    let ?s1 = "s1\<lparr>lastSeen := clock e1 (ticks (snd ?r1))\<rparr>" and ?s2 = "s2\<lparr>lastSeen := clock e1 (ticks (snd ?r1))\<rparr>"
    have low: "session_low T ?s1 ?s2" using Some(3) by (simp add: session_low_def)
    have ok: "s_ID ?s1 = i" "gomap_ok (backendSID ?s1)" "gomap_ok (backendSID ?s2)"
      using stored_ok [OF wf(1) Some(1)] stored_ok [OF wf(2) Some(2)] by simp_all
    from store_low_update [OF st low ok] low io_low_ticks [OF io] show ?thesis
      by (simp add: get_low_def Get_eq Some(1,2) now Let_def del: map_of_eq_Some_iff)
  qed
qed

lemma SetBackendSID_low:
  assumes "same_world A e1 e2" and "store_low T st1 st2" and "io_low A w1 w2"
  shows "store_low T (fst (SetBackendSID e1 i b sid st1 w1)) (fst (SetBackendSID e2 i b sid st2 w2))
    \<and> io_low A (snd (SetBackendSID e1 i b sid st1 w1)) (snd (SetBackendSID e2 i b sid st2 w2))"
proof -
  have wf: "store_wf st1" "store_wf st2" using assms(2) by (simp_all add: store_low_def)
  have now: "clock e2 = clock e1" "ticks w2 = ticks w1"
    using assms(1,3) by (simp_all add: same_world_def io_low_def)
  from store_low_at [OF assms(2), of i] show ?thesis
  proof (cases rule: option.rel_cases)
    case None
    with assms(2,3) show ?thesis by (simp add: SetBackendSID_eq)
  next
    case (Some s1 s2)
    let ?f = "\<lambda>s. s\<lparr>backendSID := gomap_set b sid (backendSID s), lastSeen := clock e1 (ticks w1)\<rparr>"
    have low: "session_low T (?f s1) (?f s2)"
      using Some(3) by (simp add: session_low_def BackendSID_def update_conv')
    have ok: "s_ID (?f s1) = i" "gomap_ok (backendSID (?f s1))" "gomap_ok (backendSID (?f s2))"
      using stored_ok [OF wf(1) Some(1)] stored_ok [OF wf(2) Some(2)] by simp_all
    from store_low_update [OF assms(2) low ok] io_low_ticks [OF assms(3)] show ?thesis
      by (simp add: SetBackendSID_eq Some(1,2) now del: map_of_eq_Some_iff)
  qed
qed

lemma Mint_low:
  assumes "same_world A e1 e2" and "store_low T st1 st2" and "io_low A w1 w2"
  shows "fst (Mint e1 st1 w1) = fst (Mint e2 st2 w2)
    \<and> store_low T (fst (snd (Mint e1 st1 w1))) (fst (snd (Mint e2 st2 w2)))
    \<and> io_low A (snd (snd (Mint e1 st1 w1))) (snd (snd (Mint e2 st2 w2)))"
proof -
  let ?r1 = "reapLocked e1 st1 w1" and ?r2 = "reapLocked e2 st2 w2"
  let ?s = "fresh_session e1 (snd ?r1)"
  have st: "store_low T (fst ?r1) (fst ?r2)" and io: "io_low A (snd ?r1) (snd ?r2)"
    using reap_low [OF assms] by simp_all
  have s: "fresh_session e2 (snd ?r2) = ?s"
    using assms(1) io by (simp add: fresh_session_def same_world_def io_low_def)
  have low: "session_low T ?s ?s" and ok: "gomap_ok (backendSID ?s)"
    by (simp_all add: session_low_def fresh_session_def)
  from store_low_update [OF st low refl ok ok] io show ?thesis
    by (simp add: Mint_eq Let_def s io_low_def)
qed

lemma Delete_low:
  assumes "store_low T st1 st2"
  shows "store_low T (snd (Delete i st1)) (snd (Delete i st2))"
proof (rule store_lowI)
  have m: "map_of (st_m (snd (Delete i st))) = (map_of (st_m st))(i := None)" for st
    by (auto simp: Delete_def delete_conv' fun_eq_iff split: option.split)
  show "rel_option (session_low T) (map_of (st_m (snd (Delete i st1))) j) (map_of (st_m (snd (Delete i st2))) j)" for j
    using store_low_at [OF assms, of j] unfolding m by simp
qed (use assms in \<open>simp_all add: store_low_def store_wf_ops\<close>)

section \<open>The catalogs\<close>

lemma catalogs_lowD:
  "catalogs_low T cs1 cs2 \<Longrightarrow> t \<in> T \<Longrightarrow> map_of (cs_byTenant cs1) (t_ID t) = Some i \<Longrightarrow>
   i < length (unique cs1) \<and> i < length (unique cs2) \<and> unique cs1 ! i = unique cs2 ! i
   \<and> cat_backend (unique cs1 ! i) = t_Backend t \<and> cat_cred (unique cs1 ! i) = EffectiveCredential t"
  unfolding catalogs_low_def by blast

lemma cachedTool_low:
  assumes "catalogs_low T cs1 cs2" and "t \<in> T"
  shows "cachedTool cs1 (t_ID t) n = cachedTool cs2 (t_ID t) n"
proof -
  have "cs_byTenant cs1 = cs_byTenant cs2" using assms(1) by (simp add: catalogs_low_def)
  with catalogs_lowD [OF assms] show ?thesis
    by (cases "map_of (cs_byTenant cs1) (t_ID t)") (simp_all add: cachedTool_def del: map_of_eq_Some_iff)
qed

lemma fetch_agree:
  assumes "same_world A e1 e2" and "visible A e1 (cat_backend c) (cat_cred c)" and "io_low A w1 w2"
  shows "agree (io_low A) (fetch e1 c w1) (fetch e2 c w2)"
proof (cases "Stateless (cat_backend c)")
  case True
  then show ?thesis using listTools_agree [OF assms] by (simp add: fetch_def Let_def)
next
  case False
  have rest: "agree (io_low A)
      (case r of Inl err \<Rightarrow> (Inl err, v1) | Inr (sid, _) \<Rightarrow>
         listTools e1 (newBackendClient (cat_backend c)) sid (cat_cred c) (cat_headers c)
           (if sid \<noteq> [] then notifyInitialized e1 (newBackendClient (cat_backend c)) sid (cat_cred c) v1 else v1))
      (case r of Inl err \<Rightarrow> (Inl err, v2) | Inr (sid, _) \<Rightarrow>
         listTools e2 (newBackendClient (cat_backend c)) sid (cat_cred c) (cat_headers c)
           (if sid \<noteq> [] then notifyInitialized e2 (newBackendClient (cat_backend c)) sid (cat_cred c) v2 else v2))"
    if "io_low A v1 v2" for r v1 v2
    using that listTools_agree [OF assms(1,2)] notifyInitialized_low [OF assms(1,2)]
    by (cases r) (auto split: prod.split)
  show ?thesis
    unfolding fetch_def Let_def if_not_P [OF False]
    by (rule agree_bind, rule initialize_agree [OF assms], rule rest)
qed

lemma cat_get_agree:
  assumes "same_world A e1 e2" and "visible A e1 (cat_backend c) (cat_cred c)" and "io_low A w1 w2"
  shows "agree (\<lambda>x y. fst x = fst y \<and> io_low A (snd x) (snd y)) (cat_get e1 c w1) (cat_get e2 c w2)"
proof -
  have now: "clock e2 = clock e1" using assms(1) by (simp add: same_world_def)
  have fresh: "agree (io_low A) (fresh e1 c w1) (fresh e2 c w2)"
    using assms(3) by (simp add: now fresh_def time_Now_def Let_def agree_def io_low_def)
  have rest: "agree (\<lambda>x y. fst x = fst y \<and> io_low A (snd x) (snd y))
      (case fetch e1 c v1 of (Inl err, w) \<Rightarrow> if cat_tools c \<noteq> None then (Inr (cat_tools c), c, w) else (Inl err, c, w)
       | (Inr tools, w) \<Rightarrow> (let (now, w2) = time_Now e1 w in (Inr tools, c\<lparr>cat_tools := tools, fetchedAt := now\<rparr>, w2)))
      (case fetch e2 c v2 of (Inl err, w) \<Rightarrow> if cat_tools c \<noteq> None then (Inr (cat_tools c), c, w) else (Inl err, c, w)
       | (Inr tools, w) \<Rightarrow> (let (now, w2) = time_Now e2 w in (Inr tools, c\<lparr>cat_tools := tools, fetchedAt := now\<rparr>, w2)))"
    if "io_low A v1 v2" for v1 v2
    by (rule agree_bind, rule fetch_agree [OF assms(1,2) that])
      (auto simp: agree_def time_Now_def io_low_def now split: sum.split)
  show ?thesis
    unfolding cat_get_def
  proof (rule agree_bind, rule fresh)
    fix a v1 v2
    assume low: "io_low A v1 v2"
    show "agree (\<lambda>x y. fst x = fst y \<and> io_low A (snd x) (snd y))
        (if a then (Inr (cat_tools c), c, v1)
         else case fetch e1 c v1 of (Inl err, w) \<Rightarrow> if cat_tools c \<noteq> None then (Inr (cat_tools c), c, w) else (Inl err, c, w)
              | (Inr tools, w) \<Rightarrow> (let (now, w2) = time_Now e1 w in (Inr tools, c\<lparr>cat_tools := tools, fetchedAt := now\<rparr>, w2)))
        (if a then (Inr (cat_tools c), c, v2)
         else case fetch e2 c v2 of (Inl err, w) \<Rightarrow> if cat_tools c \<noteq> None then (Inr (cat_tools c), c, w) else (Inl err, c, w)
              | (Inr tools, w) \<Rightarrow> (let (now, w2) = time_Now e2 w in (Inr tools, c\<lparr>cat_tools := tools, fetchedAt := now\<rparr>, w2)))"
      by (cases a) (use low in \<open>simp add: agree_def\<close>, simp only: if_False rest [OF low])
  qed
qed

lemma catalogGet_agree:
  assumes "same_world A e1 e2" and "\<And>t. t \<in> T \<Longrightarrow> visible A e1 (t_Backend t) (EffectiveCredential t)"
    and "catalogs_low T cs1 cs2" and "io_low A w1 w2" and "t \<in> T" and "map_of (cs_byTenant cs1) (t_ID t) = Some i"
  shows "agree (\<lambda>x y. catalogs_low T (fst x) (fst y) \<and> io_low A (snd x) (snd y)) (catalogGet e1 i cs1 w1) (catalogGet e2 i cs2 w2)"
proof -
  let ?c = "unique cs1 ! i"
  have c: "i < length (unique cs1)" "i < length (unique cs2)" "unique cs2 ! i = ?c"
      "cat_backend ?c = t_Backend t" "cat_cred ?c = EffectiveCredential t"
    using catalogs_lowD [OF assms(3,5,6)] by auto
  have "visible A e1 (cat_backend ?c) (cat_cred ?c)" using assms(2) [OF assms(5)] c by simp
  from cat_get_agree [OF assms(1) this assms(4)] obtain r c' v1 v2 where
    g: "cat_get e1 ?c w1 = (r, c', v1)" "cat_get e2 ?c w2 = (r, c', v2)" "io_low A v1 v2"
    by (rule agree2E) blast
  have view: "cat_backend c' = cat_backend ?c \<and> cat_cred c' = cat_cred ?c"
    using cat_get_view [of ?c e1 w1] g(1) by (simp add: same_view_def)
  have "catalogs_low T (cs1\<lparr>unique := (unique cs1)[i := c']\<rparr>) (cs2\<lparr>unique := (unique cs2)[i := c']\<rparr>)"
    unfolding catalogs_low_def
  proof (intro conjI ballI allI impI)
    show "cs_byTenant (cs1\<lparr>unique := (unique cs1)[i := c']\<rparr>) = cs_byTenant (cs2\<lparr>unique := (unique cs2)[i := c']\<rparr>)"
      using assms(3) by (simp add: catalogs_low_def)
  next
    fix u j
    assume u: "u \<in> T" and j: "map_of (cs_byTenant (cs1\<lparr>unique := (unique cs1)[i := c']\<rparr>)) (t_ID u) = Some j"
    have "map_of (cs_byTenant cs1) (t_ID u) = Some j" using j by (simp del: map_of_eq_Some_iff)
    note d = catalogs_lowD [OF assms(3) u this]
    show "j < length (unique (cs1\<lparr>unique := (unique cs1)[i := c']\<rparr>))" "j < length (unique (cs2\<lparr>unique := (unique cs2)[i := c']\<rparr>))"
      "unique (cs1\<lparr>unique := (unique cs1)[i := c']\<rparr>) ! j = unique (cs2\<lparr>unique := (unique cs2)[i := c']\<rparr>) ! j"
      "cat_backend (unique (cs1\<lparr>unique := (unique cs1)[i := c']\<rparr>) ! j) = t_Backend u"
      "cat_cred (unique (cs1\<lparr>unique := (unique cs1)[i := c']\<rparr>) ! j) = EffectiveCredential u"
      using d c view by (cases "i = j"; simp)+
  qed
  with g show ?thesis by (simp add: catalogGet_def c agree_def)
qed

section \<open>The handlers\<close>

definition visible_tenants :: "(breq \<Rightarrow> bool) \<Rightarrow> env \<Rightarrow> Tenant set \<Rightarrow> bool" where
  "visible_tenants A e T \<longleftrightarrow> (\<forall>t \<in> T. visible A e (t_Backend t) (EffectiveCredential t))"

lemma lowD:
  "low A T s1 s2 \<Longrightarrow> store_low T (p_sessions s1) (p_sessions s2)"
  "low A T s1 s2 \<Longrightarrow> catalogs_low T (p_catalog s1) (p_catalog s2)"
  "low A T s1 s2 \<Longrightarrow> io_low A (p_io s1) (p_io s2)"
  by (simp_all add: low_def)

lemma toolsLoop_agree:
  assumes "same_world A e1 e2" and "visible_tenants A e1 T"
  shows "set ts \<subseteq> T \<Longrightarrow> catalogs_low T cs1 cs2 \<Longrightarrow> io_low A w1 w2 \<Longrightarrow>
    \<exists>out errs cs1' cs2' w1' w2'. toolsLoop e1 ts cs1 w1 = (out, errs, cs1', w1') \<and> toolsLoop e2 ts cs2 w2 = (out, errs, cs2', w2')
      \<and> catalogs_low T cs1' cs2' \<and> io_low A w1' w2'"
proof (induction ts arbitrary: cs1 cs2 w1 w2)
  case Nil
  then show ?case by simp
next
  case (Cons t ts)
  have tab: "cs_byTenant cs2 = cs_byTenant cs1" using Cons.prems(2) by (simp add: catalogs_low_def)
  show ?case
  proof (cases "map_of (cs_byTenant cs1) (t_ID t)")
    case None
    with Cons tab show ?thesis by simp
  next
    case (Some i)
    have t: "t \<in> T" using Cons.prems(1) by simp
    have "visible A e1 (t_Backend u) (EffectiveCredential u)" if "u \<in> T" for u
      using assms(2) that by (simp add: visible_tenants_def)
    from catalogGet_agree [OF assms(1) this Cons.prems(2,3) t Some] obtain r c1 c2 v1 v2 where
      g: "catalogGet e1 i cs1 w1 = (r, c1, v1)" "catalogGet e2 i cs2 w2 = (r, c2, v2)"
      and l: "catalogs_low T c1 c2" "io_low A v1 v2"
      by (rule agree2E) blast
    have "set ts \<subseteq> T" using Cons.prems(1) by simp
    from Cons.IH [OF this l] obtain out errs cs1' cs2' w1' w2' where
      "toolsLoop e1 ts c1 v1 = (out, errs, cs1', w1')" "toolsLoop e2 ts c2 v2 = (out, errs, cs2', w2')"
      "catalogs_low T cs1' cs2'" "io_low A w1' w2'" by blast
    then show ?thesis by (cases r) (simp_all add: Some tab g)
  qed
qed

lemma toolsFor_agree:
  assumes "same_world A e1 e2" and "visible_tenants A e1 T" and "set ts \<subseteq> T" and "catalogs_low T cs1 cs2" and "io_low A w1 w2"
  shows "agree (\<lambda>x y. catalogs_low T (fst x) (fst y) \<and> io_low A (snd x) (snd y)) (toolsFor e1 ts cs1 w1) (toolsFor e2 ts cs2 w2)"
  using toolsLoop_agree [OF assms] by (auto simp: toolsFor_def agree_def)

lemma handleToolsList_agree:
  assumes "same_world A e1 e2" and "visible_tenants A e1 T" and "low A T s1 s2"
    and "Groups lib (h_Verifier h) r = Inr g" and "AuthorizedTenants (h_Registry h) g \<noteq> []"
    and "set (AuthorizedTenants (h_Registry h) g) \<subseteq> T"
  shows "agree (low A T) (handleToolsList h e1 lib r req w s1) (handleToolsList h e2 lib r req w s2)"
proof -
  from toolsFor_agree [OF assms(1,2,6) lowD(2,3) [OF assms(3)]] obtain x c1 v1 c2 v2 where
    g: "toolsFor e1 (AuthorizedTenants (h_Registry h) g) (p_catalog s1) (p_io s1) = (x, c1, v1)"
    "toolsFor e2 (AuthorizedTenants (h_Registry h) g) (p_catalog s2) (p_io s2) = (x, c2, v2)"
    "catalogs_low T c1 c2" "io_low A v1 v2"
    by (rule agree2E) blast
  then show ?thesis
    using assms(3) unfolding handleToolsList_def Let_def assms(4) sum.case if_not_P [OF assms(5)] g(1,2)
    by (cases x) (simp_all add: agree_def low_def)
qed

lemma selectTenant_agree:
  assumes "same_world A e1 e2" and "reg_wf reg" and "catalogs_low T cs1 cs2" and "set (AuthorizedTenants reg g) \<subseteq> T"
  shows "selectTenant e1 reg cs1 n args g (AuthorizedTenants reg g) = selectTenant e2 reg cs2 n args g (AuthorizedTenants reg g)"
proof -
  have quote: "is_print e2 = is_print e1" using assms(1) by (simp add: same_world_def)
  have cached: "cachedTool cs2 (t_ID t) n = cachedTool cs1 (t_ID t) n" if "t \<in> set (AuthorizedTenants reg g)" for t
    using cachedTool_low [OF assms(3), of t n] that assms(4) by auto
  have tenants: "tenantsWithTool cs2 n (AuthorizedTenants reg g) = tenantsWithTool cs1 n (AuthorizedTenants reg g)"
    unfolding tenantsWithTool_def by (rule filter_cong) (simp_all add: cached)
  have un: "unavailable e2 cs2 n t (AuthorizedTenants reg g) = unavailable e1 cs1 n t (AuthorizedTenants reg g)"
    if "t \<in> set (AuthorizedTenants reg g)" for t
    unfolding unavailable_def cached [OF that] tenants quote by (rule refl)
  have "t \<in> set (AuthorizedTenants reg g)" if "ResolveTenant reg i = Inr t" "IsAuthorized t g" for i t
    using that assms(2) Resolve_member set_AuthorizedTenants by blast
  then have explicit: "(case ResolveTenant reg i of Inl err \<Rightarrow> f err | Inr t \<Rightarrow> if \<not> IsAuthorized t g then k t
        else if unavailable e1 cs1 n t (AuthorizedTenants reg g) \<noteq> [] then Inl (unavailable e1 cs1 n t (AuthorizedTenants reg g)) else Inr t)
      = (case ResolveTenant reg i of Inl err \<Rightarrow> f err | Inr t \<Rightarrow> if \<not> IsAuthorized t g then k t
        else if unavailable e2 cs2 n t (AuthorizedTenants reg g) \<noteq> [] then Inl (unavailable e2 cs2 n t (AuthorizedTenants reg g)) else Inr t)"
    for i f k
    by (cases "ResolveTenant reg i") (simp_all add: un)
  show ?thesis
  proof (cases "AuthorizedTenants reg g")
    case Nil
    with explicit show ?thesis unfolding selectTenant_def Let_def quote by simp
  next
    case (Cons a as)
    have "unavailable e2 cs2 n a (AuthorizedTenants reg g) = unavailable e1 cs1 n a (AuthorizedTenants reg g)"
      by (rule un) (simp add: Cons)
    with explicit show ?thesis
      unfolding selectTenant_def Let_def quote tenants unfolding Cons by (cases as) simp_all
  qed
qed

lemma selectTenant_member:
  assumes "reg_wf reg" and "selectTenant e reg cs n args g (AuthorizedTenants reg g) = Inr t"
  shows "t \<in> set (AuthorizedTenants reg g)"
  using assms(2) [unfolded selectTenant_Inr [OF assms(1)]] filter_eq_singleton_mem
  by (auto split: if_splits dest: filter_eq_singleton_mem)

text \<open>Routing a call, one way after the other.\<close>

lemma routeToBackend_agree:
  assumes "same_world A e1 e2" and "visible_tenants A e1 T" and "low A T s1 s2" and "t \<in> T"
  shows "agree (low A T) (routeToBackend e1 r i t b n ph w s1) (routeToBackend e2 r i t b n ph w s2)"
proof -
  have vis: "visible A e1 (t_Backend t) (EffectiveCredential t)" using assms(2,4) by (simp add: visible_tenants_def)
  note forward = forwardCall_agree [OF assms(1) vis]
  show ?thesis
  proof (cases "Stateless (t_Backend t)")
    case True
    with forward [OF assms(3)] show ?thesis by (simp add: routeToBackend_stateless)
  next
    case False
    let ?id = "Header_Get (hheaders r) mcpSessionHeader"
    obtain x1 st1 io1 where g1: "Get e1 ?id (p_sessions s1) (p_io s1) = (x1, st1, io1)" by (metis prod_cases3)
    obtain x2 st2 io2 where g2: "Get e2 ?id (p_sessions s2) (p_io s2) = (x2, st2, io2)" by (metis prod_cases3)
    have get: "rel_option (session_low T) x1 x2" "store_low T st1 st2" "io_low A io1 io2"
      using Get_low [OF assms(1) lowD(1,3) [OF assms(3)], of ?id] g1 g2 by (simp_all add: get_low_def)
    have low: "low A T (s1\<lparr>p_sessions := st1', p_io := v1\<rparr>) (s2\<lparr>p_sessions := st2', p_io := v2\<rparr>)"
      if "store_low T st1' st2'" "io_low A v1 v2" for st1' st2' v1 v2
      using that assms(3) by (simp add: low_def)
    from get(1) show ?thesis
    proof (cases rule: option.rel_cases)
      case None
      with False g1 g2 low [OF get(2,3)] show ?thesis by (simp add: routeToBackend_unknown agree_def)
    next
      case (Some y1 y2)
      have bound: "BackendSID y2 (t_ID t) = BackendSID y1 (t_ID t)" using Some(3) assms(4) by (simp add: session_low_def)
      show ?thesis
      proof (cases "BackendSID y1 (t_ID t)")
        case b: (Some sid)
        with False g1 g2 Some bound forward [OF low [OF get(2,3)]] show ?thesis by (simp add: routeToBackend_bound)
      next
        case None
        from initialize_agree [OF assms(1) vis get(3), of defaultInitParams] show ?thesis
        proof (rule agreeE)
          fix a v1 v2
          assume init: "initialize e1 (newBackendClient (t_Backend t)) defaultInitParams (EffectiveCredential t) io1 = (a, v1)"
            "initialize e2 (newBackendClient (t_Backend t)) defaultInitParams (EffectiveCredential t) io2 = (a, v2)"
            and v: "io_low A v1 v2"
          note g = g1 [unfolded Some(1)] g2 [unfolded Some(2)]
          show ?thesis
          proof (cases a)
            case (Inl err)
            with False g None bound init low [OF get(2) v] show ?thesis by (simp add: routeToBackend_failed agree_def)
          next
            case (Inr x)
            then obtain sid res where a: "a = Inr (sid, res)" by (cases x) auto
            have "io_low A (opened e1 t sid v1) (opened e2 t sid v2)"
              using notifyInitialized_low [OF assms(1) vis v] v by (simp add: opened_def)
            from SetBackendSID_low [OF assms(1) get(2) this] have set:
              "low A T (s1\<lparr>p_sessions := fst (SetBackendSID e1 ?id (t_ID t) sid st1 (opened e1 t sid v1)),
                  p_io := snd (SetBackendSID e1 ?id (t_ID t) sid st1 (opened e1 t sid v1))\<rparr>)
                (s2\<lparr>p_sessions := fst (SetBackendSID e2 ?id (t_ID t) sid st2 (opened e2 t sid v2)),
                  p_io := snd (SetBackendSID e2 ?id (t_ID t) sid st2 (opened e2 t sid v2))\<rparr>)"
              by (intro low) simp_all
            note eq = routeToBackend_open [OF False g(1) None init(1) [unfolded a]]
              routeToBackend_open [OF False g(2) bound [unfolded None] init(2) [unfolded a]]
            show ?thesis unfolding eq Let_def by (rule forward [OF set])
          qed
        qed
      qed
    qed
  qed
qed

lemma toolsCall_agree:
  assumes "same_world A e1 e2" and "visible_tenants A e1 T" and "low A T s1 s2" and "reg_wf (h_Registry h)"
    and "Groups lib (h_Verifier h) r = Inr g" and "set (AuthorizedTenants (h_Registry h) g) \<subseteq> T"
  shows "agree (low A T) (toolsCall h e1 lib r req w s1) (toolsCall h e2 lib r req w s2)"
proof (cases "Unmarshal_toolCallParams (rq_Params req)")
  case (Inl err)
  with assms(3,5) show ?thesis by (simp add: toolsCall_def Let_def agree_def)
next
  case (Inr p)
  let ?T = "AuthorizedTenants (h_Registry h) g"
  have sel: "selectTenant e2 (h_Registry h) (p_catalog s2) (tp_Name p) (tp_Arguments p) g ?T
      = selectTenant e1 (h_Registry h) (p_catalog s1) (tp_Name p) (tp_Arguments p) g ?T"
    by (rule selectTenant_agree [OF assms(1,4) lowD(2) [OF assms(3)] assms(6), symmetric])
  show ?thesis
  proof (cases "selectTenant e1 (h_Registry h) (p_catalog s1) (tp_Name p) (tp_Arguments p) g ?T")
    case Inl
    with assms(3,5) \<open>Unmarshal_toolCallParams (rq_Params req) = Inr p\<close> sel show ?thesis
      by (simp add: toolsCall_def Let_def agree_def)
  next
    case t: (Inr t)
    have "t \<in> T"
      using selectTenant_member [OF assms(4) t] assms(6) by blast
    have ph: "paramHeadersForCall (p_catalog s2) t n args = paramHeadersForCall (p_catalog s1) t n args" for n args
      using cachedTool_low [OF lowD(2) [OF assms(3)] \<open>t \<in> T\<close>] by (simp add: paramHeadersForCall_def)
    note route = routeToBackend_agree [OF assms(1-3) \<open>t \<in> T\<close>]
    show ?thesis
    proof (cases "tp_Name p = listInstancesTool \<or> (\<exists>err. stripTenantArg (rq_Params req) = Inl err)")
      case True
      with assms(3,5) \<open>Unmarshal_toolCallParams (rq_Params req) = Inr p\<close> sel t show ?thesis
        by (auto simp: toolsCall_def Let_def agree_def)
    next
      case False
      then obtain c where c: "stripTenantArg (rq_Params req) = Inr c" by (cases "stripTenantArg (rq_Params req)") auto
      have name: "tp_Name p \<noteq> listInstancesTool" using False by simp
      show ?thesis
        unfolding toolsCall_def Let_def assms(5) sum.case \<open>Unmarshal_toolCallParams (rq_Params req) = Inr p\<close> sel t c ph if_not_P [OF name]
        by (rule agree_bind, rule route) (auto simp: agree_def)
    qed
  qed
qed

lemma handleToolsCall_agree:
  assumes "same_world A e1 e2" and "visible_tenants A e1 T" and "low A T s1 s2" and "reg_wf (h_Registry h)"
    and "\<And>g. Groups lib (h_Verifier h) r = Inr g \<Longrightarrow> set (AuthorizedTenants (h_Registry h) g) \<subseteq> T"
  shows "agree (low A T) (handleToolsCall h e1 lib r req w s1) (handleToolsCall h e2 lib r req w s2)"
proof -
  have call: "agree (low A T) (toolsCall h e1 lib r req w s1) (toolsCall h e2 lib r req w s2)"
  proof (cases "Groups lib (h_Verifier h) r")
    case Inl
    with assms(3) show ?thesis by (simp add: toolsCall_def Let_def agree_def split: prod.split)
  next
    case (Inr g)
    from toolsCall_agree [OF assms(1-4) Inr assms(5) [OF Inr]] show ?thesis .
  qed
  show ?thesis
    unfolding handleToolsCall_def
    by (rule agree_bind, rule call) (auto simp: agree_def low_def split: prod.split)
qed

lemma handleInitialize_agree:
  assumes "same_world A e1 e2" and "low A T s1 s2"
  shows "agree (low A T) (handleInitialize h e1 req w s1) (handleInitialize h e2 req w s2)"
  using Mint_low [OF assms(1) lowD(1,3) [OF assms(2)]] assms(2)
  by (auto simp: handleInitialize_def Let_def agree_def low_def split: prod.split)

lemma handleDelete_agree: "low A T s1 s2 \<Longrightarrow> agree (low A T) (handleDelete h r s1) (handleDelete h r s2)"
  using Delete_low [OF lowD(1), of A T s1 s2 "Header_Get (hheaders r) mcpSessionHeader"]
  by (auto simp: handleDelete_def Let_def agree_def low_def split: prod.split option.split)

section \<open>Conversations\<close>

text \<open>The request grants its sender tenants of \<open>T\<close> only, if any; and it is no discovery: a listing without an
  authorized tenant shows the tools of every tenant by design.\<close>

definition lists_tools :: "hreq \<Rightarrow> bool" where
  "lists_tools r \<longleftrightarrow> (case Unmarshal_request_text (hbody r) of Inl _ \<Rightarrow> False | Inr req \<Rightarrow> rq_Method req = ''tools/list'')"

definition confined_to :: "Handler \<Rightarrow> jwtlib \<Rightarrow> Tenant set \<Rightarrow> hreq \<Rightarrow> bool" where
  "confined_to h lib T r \<longleftrightarrow>
     (case Groups lib (h_Verifier h) r of
        Inl _ \<Rightarrow> \<not> lists_tools r
      | Inr g \<Rightarrow> set (AuthorizedTenants (h_Registry h) g) \<subseteq> T
          \<and> (lists_tools r \<longrightarrow> AuthorizedTenants (h_Registry h) g \<noteq> []))"

lemma ServeHTTP_agree:
  assumes "same_world A e1 e2" and "visible_tenants A e1 T" and "low A T s1 s2" and "reg_wf (h_Registry h)" and "confined_to h lib T r"
  shows "agree (low A T) (ServeHTTP h e1 lib r s1) (ServeHTTP h e2 lib r s2)"
proof -
  have some: "agree (low A T) (case x of (w, s) \<Rightarrow> (Some w, s)) (case y of (w, s) \<Rightarrow> (Some w, s))"
    if "agree (low A T) x y" for x y :: "hresp \<times> Proxy"
    using that by (auto simp: agree_def split: prod.split)
  have granted: "set (AuthorizedTenants (h_Registry h) g) \<subseteq> T" if "Groups lib (h_Verifier h) r = Inr g" for g
    using assms(5) that by (simp add: confined_to_def)
  have post: "agree (low A T) (handlePost h e1 lib r s1) (handlePost h e2 lib r s2)"
  proof (cases "hread_err r \<or> (\<exists>err. Unmarshal_request_text (hbody r) = Inl err)")
    case True
    with assms(3) show ?thesis by (auto simp: handlePost_def agree_def)
  next
    case False
    then obtain req where req: "\<not> hread_err r" "Unmarshal_request_text (hbody r) = Inr req"
      by (cases "Unmarshal_request_text (hbody r)") auto
    let ?w = "if AllStateless (h_Registry h) then set_hdr mcpProtocolVersionHeader ProtocolVersionStateless new_resp else new_resp"
    have call: "agree (low A T) (handleToolsCall h e1 lib r req ?w s1) (handleToolsCall h e2 lib r req ?w s2)"
      by (rule handleToolsCall_agree [OF assms(1-4) granted])
    have list: "agree (low A T) (handleToolsList h e1 lib r req ?w s1) (handleToolsList h e2 lib r req ?w s2)"
      if m: "rq_Method req = ''tools/list''"
    proof -
      have "lists_tools r" using req m by (simp add: lists_tools_def)
      with assms(5) obtain g where g: "Groups lib (h_Verifier h) r = Inr g" "AuthorizedTenants (h_Registry h) g \<noteq> []"
        by (auto simp: confined_to_def split: sum.splits)
      show ?thesis by (rule handleToolsList_agree [OF assms(1-3) g granted [OF g(1)]])
    qed
    note init = handleInitialize_agree [OF assms(1,3), of h req ?w]
    have same: "agree (low A T) (Some w, s1) (Some w, s2)" for w using assms(3) by (simp add: agree_def)
    show ?thesis
      unfolding handlePost_def req(2) sum.case if_not_P [OF req(1)] Let_def
      by (intro if_agree; (rule same | rule call | rule some [OF init] | (rule some, rule list, assumption)))
  qed
  have same: "agree (low A T) (Some w, s1) (Some w, s2)" for w using assms(3) by (simp add: agree_def)
  show ?thesis
    unfolding ServeHTTP_def
    by (intro if_agree; (rule same | rule post | rule some [OF handleDelete_agree [OF assms(3)]]))
qed

text \<open>A conversation: the requests of some clients, one after the other, and their responses.\<close>

fun converse :: "Handler \<Rightarrow> env \<Rightarrow> (jwtlib \<times> hreq) list \<Rightarrow> Proxy \<Rightarrow> hresp option list \<times> Proxy" where
  "converse h e [] s = ([], s)"
| "converse h e ((lib, r) # rs) s =
     (case ServeHTTP h e lib r s of (resp, s1) \<Rightarrow> (case converse h e rs s1 of (resps, s2) \<Rightarrow> (resp # resps, s2)))"

lemma converse_agree:
  assumes "same_world A e1 e2" and "visible_tenants A e1 T" and "reg_wf (h_Registry h)"
  shows "low A T s1 s2 \<Longrightarrow> \<forall>(lib, r) \<in> set rs. confined_to h lib T r \<Longrightarrow>
    agree (low A T) (converse h e1 rs s1) (converse h e2 rs s2)"
proof (induction rs arbitrary: s1 s2)
  case Nil
  then show ?case by (simp add: agree_def)
next
  case (Cons x rs)
  obtain lib r where x: "x = (lib, r)" by (cases x)
  with Cons.prems(2) have r: "confined_to h lib T r" and rs: "\<forall>(lib, r) \<in> set rs. confined_to h lib T r" by auto
  show ?case
    unfolding x converse.simps
  proof (rule agree_bind, rule ServeHTTP_agree [OF assms(1,2) Cons.prems(1) assms(3) r])
    fix resp v1 v2
    assume "low A T v1 v2"
    from Cons.IH [OF this rs] show "agree (low A T) (case converse h e1 rs v1 of (resps, s2) \<Rightarrow> (resp # resps, s2))
        (case converse h e2 rs v2 of (resps, s2) \<Rightarrow> (resp # resps, s2))"
      by (rule agreeE) (auto simp: agree_def)
  qed
qed

text \<open>C3. Clients learn nothing about tenants they are not granted. Compare two worlds that agree on the
  tenants \<open>T\<close>: their backends answer alike, their catalogs and the sessions opened for them are the same;
  everything else may differ, what other backends answer, other tenants' catalogs and sessions, the
  traffic so far, the counters and pending teardowns. Whatever clients with tenants of \<open>T\<close> ask, in whatever
  order, initialising, calling tools of any tenant, listing, deleting sessions, they get the same
  responses in both worlds, which agree on \<open>T\<close> again afterwards.\<close>

theorem noninterference:
  assumes "same_world A e1 e2" and "visible_tenants A e1 T" and "reg_wf (h_Registry h)" and "low A T s1 s2"
    and "\<forall>(lib, r) \<in> set rs. confined_to h lib T r"
  shows "fst (converse h e1 rs s1) = fst (converse h e2 rs s2) \<and> low A T (snd (converse h e1 rs s1)) (snd (converse h e2 rs s2))"
  using converse_agree [OF assms(1-3,4,5)] by (simp add: agree_def)

text \<open>A registry with a tenant the client is not granted; two worlds that differ in that tenant's backend, tools,
  sessions and traffic; and a client that lists the tools, calls one of its own, and tries the other tenant.\<close>

definition secret_handler :: Handler where
  "secret_handler = demo_handler\<lparr>h_Registry :=
     \<lparr>byTenant = [(''acme'', demo_tenant ''acme'' ''dev'' example_backend []), (''corp'', demo_tenant ''corp'' ''hr'' stateful_backend ''pat'')],
      reg_backends = [example_backend, stateful_backend]\<rparr>\<rparr>"

definition own_request :: "breq \<Rightarrow> bool" where
  "own_request q \<longleftrightarrow> burl q = url_String (b_URL example_backend)"

definition secret_env :: env where
  "secret_env = demo_env\<lparr>transport := (\<lambda>qs q. if own_request q then transport demo_env qs q else Inl ''down'')\<rparr>"

definition secret_state :: "rawTool list option \<Rightarrow> (string, string) gomap \<Rightarrow> breq list \<Rightarrow> Proxy" where
  "secret_state tools sids qs =
     \<lparr>p_sessions = \<lparr>st_m = [(''a'', \<lparr>s_ID = ''a'', created = 0, lastSeen = 0, backendSID = sids\<rparr>)], st_ttl = 100\<rparr>,
      p_catalog = \<lparr>cs_byTenant = [(''acme'', 0), (''corp'', 1)],
        unique = [newCatalog example_backend ''k'' [] 5, (newCatalog stateful_backend ''pat'' [] 5)\<lparr>cat_tools := tools\<rparr>]\<rparr>,
      p_obs = new_obs, p_tasks = [], p_io = init_io\<lparr>sent := qs\<rparr>\<rparr>"

definition secret_talk :: "(jwtlib \<times> hreq) list" where
  "secret_talk = [(example_lib, demo_post ''a'' (''{'' @ quoted ''method'' @ '':'' @ quoted ''tools/list'' @ '','' @ quoted ''id'' @ '':1}'')),
     (example_lib, demo_post ''a'' body_call)]"

definition secret_request :: breq where
  "secret_request = \<lparr>bmethod = ''POST'', burl = url_String (b_URL stateful_backend), bheaders = [], bpayload = None\<rparr>"

lemma secret_worlds:
  "same_world own_request demo_env secret_env"
  "visible_tenants own_request demo_env {demo_tenant ''acme'' ''dev'' example_backend []}"
  "reg_wf (h_Registry secret_handler)"
  by (simp_all add: same_world_def secret_env_def demo_env_def quiet_env_def visible_tenants_def visible_def own_request_def
      demo_tenant_def secret_handler_def reg_wf_def index_wf_def backend_requestD)

lemma secret_low:
  "low own_request {demo_tenant ''acme'' ''dev'' example_backend []} (secret_state None [] [])
     (secret_state (Some [example_tool]) [(''corp'', ''b'')] [secret_request])"
proof -
  have "\<not> own_request secret_request" by (simp add: own_request_def secret_request_def) code_simp
  then have "io_low own_request init_io (init_io\<lparr>sent := [secret_request]\<rparr>)" by (simp add: io_low_def init_io_def)
  then show ?thesis
    by (simp add: low_def secret_state_def store_low_def catalogs_low_def session_low_def store_wf_def BackendSID_def
        demo_tenant_def newCatalog_def EffectiveCredential_def example_backend_def init_io_def)
qed

theorem noninterference_witness:
  "fst (converse secret_handler demo_env secret_talk (secret_state None [] []))
   = fst (converse secret_handler secret_env secret_talk (secret_state (Some [example_tool]) [(''corp'', ''b'')] [secret_request]))
   \<and> map (map_option rstatus) (fst (converse secret_handler demo_env secret_talk (secret_state None [] []))) = [Some 200, Some 200]"
proof
  have "list_all (\<lambda>(lib, r). confined_to secret_handler lib {demo_tenant ''acme'' ''dev'' example_backend []} r) secret_talk"
    by code_simp
  then have "\<forall>(lib, r) \<in> set secret_talk. confined_to secret_handler lib {demo_tenant ''acme'' ''dev'' example_backend []} r"
    by (simp add: list_all_iff)
  from noninterference [OF secret_worlds secret_low this]
  show "fst (converse secret_handler demo_env secret_talk (secret_state None [] []))
   = fst (converse secret_handler secret_env secret_talk (secret_state (Some [example_tool]) [(''corp'', ''b'')] [secret_request]))"
    by simp
  show "map (map_option rstatus) (fst (converse secret_handler demo_env secret_talk (secret_state None [] []))) = [Some 200, Some 200]"
    by code_simp
qed

end
