(* ===== verification/Lists.thy ===== *)
theory Lists
  imports Isolation
begin

text \<open>
  A \<open>tools/list\<close> in small steps. The handler looks up one catalog after the other, each under that
  catalog's own lock, and holds no lock in between; so other requests, the lookups of other listings
  among them, run between its steps. The handler as one function, as Handler has it, is the run of these
  steps without interruption.
\<close>

section \<open>The steps of a listing\<close>

text \<open>What the listing is for: whether it is a discovery, for how many tenants the caller is authorized, and
  the tenants it asks.\<close>

definition begin_list :: "Handler \<Rightarrow> jwtlib \<Rightarrow> hreq \<Rightarrow> bool \<times> nat \<times> Tenant list" where
  "begin_list h lib r =
     (let authorized = (case Groups lib (h_Verifier h) r of
                          Inl _ \<Rightarrow> [] | Inr groups \<Rightarrow> AuthorizedTenants (h_Registry h) groups);
          discovery = (authorized = [])
      in (discovery, length authorized, if discovery then sort_key t_ID (Tenants (h_Registry h)) else authorized))"

text \<open>The tenants still to ask, the lists and the errors so far; or the answer.\<close>

datatype list_pc = Asking "Tenant list" "tenantTools list" "string list" | Listed hresp

definition list_answer ::
    "Handler \<Rightarrow> jsonRPCRequest \<Rightarrow> hresp \<Rightarrow> bool \<Rightarrow> nat \<Rightarrow> tenantTools list \<Rightarrow> string list \<Rightarrow> hresp" where
  "list_answer h req w discovery n views errs =
     (if views = [] \<and> errs \<noteq> [] then writeRPCError (rq_ID req) (- 32603) ''failed to load tool catalog'' w
      else (let u = unionTools views;
                out = map (callerTool discovery n u) (tu_order u) @ [listInstancesToolDef];
                result = [(''tools'', JArr (map Marshal_map out))]
                  @ (if AllStateless (h_Registry h)
                     then [(''cacheScope'', JStr ''private''), (''resultType'', JStr ''complete''), (''ttlMs'', JNum ''0'')]
                     else [])
            in writeResult (rq_ID req) (Marshal_map result) w))"

fun list_step :: "Handler \<Rightarrow> env \<Rightarrow> jsonRPCRequest \<Rightarrow> hresp \<Rightarrow> bool \<Rightarrow> nat \<Rightarrow> list_pc \<Rightarrow> Proxy \<Rightarrow> list_pc \<times> Proxy" where
  "list_step h e req w discovery n (Asking [] views errs) s = (Listed (list_answer h req w discovery n views errs), s)"
| "list_step h e req w discovery n (Asking (t # ts) views errs) s =
     (case map_of (cs_byTenant (p_catalog s)) (t_ID t) of
        None \<Rightarrow> (Asking ts views errs, s)
      | Some i \<Rightarrow>
          (case catalogGet e i (p_catalog s) (p_io s) of (r, cs, io) \<Rightarrow>
             ((case r of
                 Inl err \<Rightarrow> Asking ts views (errs @ [err])
               | Inr tools \<Rightarrow> Asking ts (views @ [(t, tools_list tools)]) errs),
              s\<lparr>p_catalog := cs, p_io := io\<rparr>)))"
| "list_step h e req w discovery n (Listed resp) s = (Listed resp, s)"

text \<open>\<open>k\<close> steps without interruption, and steps in whatever states the others leave.\<close>

fun list_run ::
    "Handler \<Rightarrow> env \<Rightarrow> jsonRPCRequest \<Rightarrow> hresp \<Rightarrow> bool \<Rightarrow> nat \<Rightarrow> nat \<Rightarrow> list_pc \<times> Proxy \<Rightarrow> list_pc \<times> Proxy" where
  "list_run h e req w discovery n 0 x = x"
| "list_run h e req w discovery n (Suc k) x = list_run h e req w discovery n k (list_step h e req w discovery n (fst x) (snd x))"

fun interrupted_list ::
    "Handler \<Rightarrow> env \<Rightarrow> jsonRPCRequest \<Rightarrow> hresp \<Rightarrow> bool \<Rightarrow> nat \<Rightarrow> list_pc \<Rightarrow> Proxy list \<Rightarrow> list_pc" where
  "interrupted_list h e req w discovery n pc [] = pc"
| "interrupted_list h e req w discovery n pc (s # ss) =
     interrupted_list h e req w discovery n (fst (list_step h e req w discovery n pc s)) ss"

section \<open>The function is the uninterrupted run\<close>

lemma list_run_loop:
  "list_run h e req w discovery n (length ts + k) (Asking ts views errs, s) =
     (case toolsLoop e ts (p_catalog s) (p_io s) of (out, es, cs, io) \<Rightarrow>
        list_run h e req w discovery n k (Asking [] (views @ out) (errs @ es), s\<lparr>p_catalog := cs, p_io := io\<rparr>))"
proof (induction ts arbitrary: views errs s)
  case Nil
  then show ?case by simp
next
  case (Cons t ts)
  show ?case
  proof (cases "map_of (cs_byTenant (p_catalog s)) (t_ID t)")
    case None
    with Cons.IH [of views errs s] show ?thesis by simp
  next
    case (Some i)
    obtain r cs io where g: "catalogGet e i (p_catalog s) (p_io s) = (r, cs, io)" by (metis prod_cases3)
    obtain out es cs' io' where l: "toolsLoop e ts cs io = (out, es, cs', io')" by (metis prod_cases4)
    show ?thesis
      using Cons.IH [of _ _ "s\<lparr>p_catalog := cs, p_io := io\<rparr>"] by (cases r) (simp_all add: Some g l)
  qed
qed

lemma handleToolsList_answer:
  assumes "begin_list h lib r = (discovery, n, ts)"
  shows "handleToolsList h e lib r req w s =
    (case toolsLoop e ts (p_catalog s) (p_io s) of (views, errs, cs, io) \<Rightarrow>
       (list_answer h req w discovery n views errs, s\<lparr>p_catalog := cs, p_io := io\<rparr>))"
proof -
  obtain views errs cs io where l: "toolsLoop e ts (p_catalog s) (p_io s) = (views, errs, cs, io)" by (metis prod_cases4)
  define au where "au = (case Groups lib (h_Verifier h) r of Inl _ \<Rightarrow> [] | Inr groups \<Rightarrow> AuthorizedTenants (h_Registry h) groups)"
  have "(au = [], length au, if au = [] then sort_key t_ID (Tenants (h_Registry h)) else au) = (discovery, n, ts)"
    using assms by (simp only: begin_list_def Let_def au_def)
  then have facts: "(if au = [] then sort_key t_ID (Tenants (h_Registry h)) else au) = ts" "(au = []) = discovery" "length au = n"
    unfolding prod.inject by blast+
  have f: "toolsFor e ts (p_catalog s) (p_io s) = (if views = [] \<and> errs \<noteq> [] then Inl errs else Inr views, cs, io)"
    by (simp add: toolsFor_def l)
  show ?thesis
    unfolding handleToolsList_def Let_def au_def [symmetric] facts(1) unfolding f l facts(2,3) list_answer_def Let_def by simp
qed

lemma asking_left:
  "length ts < length ss \<Longrightarrow> \<exists>resp. interrupted_list h e req w discovery n (Asking ts views errs) ss = Listed resp"
proof (induction ss arbitrary: ts views errs)
  case (Cons s ss)
  have over: "interrupted_list h e req w discovery n (Listed resp) ss = Listed resp" for resp
    by (induction ss) auto
  show ?case
  proof (cases ts)
    case Nil
    with over show ?thesis by simp
  next
    case (Cons t us)
    with Cons.prems have "length us < length ss" by simp
    from Cons.IH [OF this] show ?thesis by (auto simp: Cons split: option.split prod.split sum.split)
  qed
qed simp

lemma list_step_reach:
  assumes "reg_wf (h_Registry h)" and "proxy_reach h e s cs"
  shows "proxy_reach h e (snd (list_step h e req w discovery n pc s)) cs"
proof (cases "(h, e, req, w, discovery, n, pc, s)" rule: list_step.cases)
  case (2 h' e' req' w' d' n' t ts views errs s')
  show ?thesis
  proof (cases "map_of (cs_byTenant (p_catalog s)) (t_ID t)")
    case None
    with 2 assms(2) show ?thesis by simp
  next
    case (Some i)
    obtain r cat io where g: "catalogGet e i (p_catalog s) (p_io s) = (r, cat, io)" by (metis prod_cases3)
    have "i < length (unique (p_catalog s))"
      using reach_inv [OF assms(2,1)] Some unfolding proxy_inv_def catalogs_ok_def by blast
    from proxy_reach.refresh [OF assms(2) this g] 2 Some g show ?thesis by simp
  qed
qed (use assms(2) in simp_all)


definition demo_list :: jsonRPCRequest where
  "demo_list = \<lparr>rq_JSONRPC = ''2.0'', rq_Method = ''tools/list'', rq_Params = None, rq_ID = Some (JNum ''8'')\<rparr>"


end
