(* ===== verification/Endpoint.thy ===== *)
theory Endpoint
  imports Isolation
begin

text \<open>
  What a client of the endpoint sees: the protocol of a proxy all of whose backends are stateless, the
  requests that make the handler panic, what of a request can influence a call, the end of a
  session, and what is recorded of a call.
\<close>

section \<open>A stateless proxy\<close>

definition stamp :: string where
  "stamp = CanonicalHeaderKey mcpProtocolVersionHeader"

text \<open>What a response says about the protocol: the revision and the session.\<close>

definition protocol :: "hresp \<Rightarrow> string option \<times> string option" where
  "protocol w = (map_of (rheaders w) stamp, map_of (rheaders w) mcpSessionHeader)"

lemma header_names:
  "CanonicalHeaderKey ''Content-Type'' \<notin> {stamp, mcpSessionHeader}"
  "CanonicalHeaderKey ''WWW-Authenticate'' \<notin> {stamp, mcpSessionHeader}"
  "CanonicalHeaderKey ''X-Content-Type-Options'' \<notin> {stamp, mcpSessionHeader}"
  "stamp \<noteq> mcpSessionHeader" "CanonicalHeaderKey mcpSessionHeader = mcpSessionHeader"
  by code_simp+

text \<open>No writer of the proxy touches these headers.\<close>

lemma protocol_set [simp]:
  "protocol (set_hdr ''Content-Type'' v w) = protocol w" "protocol (set_hdr ''WWW-Authenticate'' v w) = protocol w"
  "protocol (set_hdr ''X-Content-Type-Options'' v w) = protocol w"
  using header_names by (auto simp: protocol_def set_hdr_def map_of_Header_Set)

lemma protocol_frame [simp]:
  "protocol (w\<lparr>rbody := b\<rparr>) = protocol w" "protocol (w\<lparr>rstatus := n\<rparr>) = protocol w" "protocol new_resp = (None, None)"
  by (simp_all add: protocol_def new_resp_def)

lemma protocol_announce [simp]:
  "protocol (set_hdr mcpProtocolVersionHeader v w) = (Some v, snd (protocol w))"
  "protocol (set_hdr mcpSessionHeader v w) = (fst (protocol w), Some v)"
  using header_names by (auto simp: protocol_def set_hdr_def map_of_Header_Set stamp_def)

lemma protocol_writers [simp]:
  "protocol (writeRPCError i code msg w) = protocol w" "protocol (writeResult i result w) = protocol w"
  "protocol (writeBytes b w) = protocol w" "protocol (writeHTTPError n i code msg w) = protocol w"
  "protocol (writeJSONRPCResult i result w) = protocol w" "protocol (writeInstances h i ts w) = protocol w"
  "protocol (fst (authFailure h r i err w)) = protocol w"
  by (simp_all add: writeRPCError_def writeResult_def writeBytes_def writeHTTPError_def writeJSONRPCResult_def
      writeInstances_def authFailure_def Let_def split: auth_error.split)

lemma protocol_forward:
  "fst (fst (forwardCall e t sid i b hs n w s)) = Some w1 \<Longrightarrow> protocol w1 = protocol w"
  by (auto simp: forwardCall_def split: prod.splits option.splits sum.splits)

lemma protocol_route:
  "fst (fst (routeToBackend e r i t b n ph w s)) = Some w1 \<Longrightarrow> protocol w1 = protocol w"
  by (cases rule: route_cases [where t = t and e = e and r = r and s = s])
    (auto simp: routeToBackend_eqs Let_def dest: protocol_forward)

lemma protocol_call:
  "fst (handleToolsCall h e lib r req w s) = Some w1 \<Longrightarrow> protocol w1 = protocol w"
proof (cases "routed h e lib r req (p_catalog s)")
  case None
  moreover assume "fst (handleToolsCall h e lib r req w s) = Some w1"
  moreover have "authFailure h r i err w = (w2, k) \<Longrightarrow> protocol w2 = protocol w" for i err w2 k
    using protocol_writers(7) [of h r i err w] by simp
  ultimately show ?thesis
    by (auto simp: handleToolsCall_resp toolsCall_def routed_def Let_def split: sum.splits if_splits prod.splits)
next
  case (Some x)
  then obtain g t p c where "routed h e lib r req (p_catalog s) = Some (g, t, p, c)" by (cases x) auto
  moreover assume "fst (handleToolsCall h e lib r req w s) = Some w1"
  ultimately show ?thesis by (auto simp: handleToolsCall_resp toolsCall_routed route_def dest: protocol_route)
qed

lemma AllStateless_tenant:
  "AllStateless reg \<Longrightarrow> reg_wf reg \<Longrightarrow> t \<in> set (Tenants reg) \<Longrightarrow> Stateless (t_Backend t)"
  by (auto simp: AllStateless_def reg_wf_def index_wf_def Tenants_def list_all_iff)

lemma stateless_call:
  assumes "AllStateless (h_Registry h)" and "reg_wf (h_Registry h)"
  shows "p_sessions (snd (handleToolsCall h e lib r req w s)) = p_sessions s
    \<and> p_tasks (snd (handleToolsCall h e lib r req w s)) = p_tasks s"
proof (cases "routed h e lib r req (p_catalog s)")
  case None
  then show ?thesis by (simp add: handleToolsCall_state Let_def toolsCall_unrouted)
next
  case (Some x)
  then obtain g t p c where x: "routed h e lib r req (p_catalog s) = Some (g, t, p, c)" by (cases x) auto
  have st: "Stateless (t_Backend t)" using routed_tenant [OF assms(2) x] AllStateless_tenant [OF assms] by blast
  from forwardCall_frame show ?thesis
    by (auto simp: handleToolsCall_state Let_def toolsCall_routed [OF x] route_def routeToBackend_stateless [OF st])
qed

lemma list_frame:
  "p_sessions (snd (handleToolsList h e lib r req w s)) = p_sessions s
   \<and> p_tasks (snd (handleToolsList h e lib r req w s)) = p_tasks s
   \<and> p_obs (snd (handleToolsList h e lib r req w s)) = p_obs s
   \<and> protocol (fst (handleToolsList h e lib r req w s)) = protocol w"
proof -
  define authorized where "authorized = (case Groups lib (h_Verifier h) r of
      Inl _ \<Rightarrow> [] | Inr groups \<Rightarrow> AuthorizedTenants (h_Registry h) groups)"
  define ts where "ts = (if authorized = [] then sort_key t_ID (Tenants (h_Registry h)) else authorized)"
  obtain x cs io where f: "toolsFor e ts (p_catalog s) (p_io s) = (x, cs, io)" by (metis prod_cases3)
  show ?thesis
    unfolding handleToolsList_def Let_def authorized_def [symmetric] ts_def [symmetric] f by (simp split: sum.split)
qed


text \<open>A proxy with one stateless backend and one tenant.\<close>

definition stateless_handler :: Handler where
  "stateless_handler = demo_handler\<lparr>h_Registry :=
     \<lparr>byTenant = [(''acme'', demo_tenant ''acme'' ''dev'' example_backend [])], reg_backends = [example_backend]\<rparr>\<rparr>"

lemma stateless_handler_ok: "AllStateless (h_Registry stateless_handler)" "reg_wf (h_Registry stateless_handler)"
  by (simp_all add: stateless_handler_def AllStateless_def Stateless_def example_backend_def reg_wf_def index_wf_def
      demo_tenant_def)


section \<open>Panics\<close>

lemma callTool_panic:
  "fst (callTool e (newBackendClient b) sid cred (Marshal_request \<lparr>rq_JSONRPC = j, rq_Method = m, rq_Params = c, rq_ID = i\<rparr>) hs n w) = None
   \<longleftrightarrow> Stateless b \<and> injectMeta c = None"
  by (auto simp: callTool_def Unmarshal_Marshal_request split: option.split prod.split sum.split)

lemma forwardCall_panic:
  "fst (fst (forwardCall e t sid i b hs n w s)) = None \<longleftrightarrow>
     fst (callTool e (newBackendClient (t_Backend t)) sid (EffectiveCredential t) b hs n (p_io s)) = None"
  by (auto simp: forwardCall_def split: prod.split option.split sum.split)

lemma injectMeta_None: "injectMeta c = None \<longleftrightarrow> c = Some JNull"
  by (auto simp: injectMeta_def Unmarshal_map_def split: option.splits json.splits)

lemma routeToBackend_panic:
  "fst (fst (routeToBackend e r i t (Marshal_request \<lparr>rq_JSONRPC = j, rq_Method = m, rq_Params = c, rq_ID = k\<rparr>) n ph w s)) = None
   \<longleftrightarrow> Stateless (t_Backend t) \<and> c = Some JNull"
proof (cases "Stateless (t_Backend t)")
  case True
  then show ?thesis by (simp add: routeToBackend_stateless forwardCall_panic callTool_panic injectMeta_None)
next
  case False
  then show ?thesis
    by (cases rule: route_cases [where t = t and e = e and r = r and s = s])
      (auto simp: routeToBackend_eqs forwardCall_panic callTool_panic Let_def)
qed

lemma strip_null: "stripTenantArg p = Inr (Some JNull) \<longleftrightarrow> p = Some JNull"
  by (auto simp: stripTenantArg_def Unmarshal_map_def Marshal_map_def nilmap_def split: option.splits json.splits sum.splits)

lemma call_panic:
  "fst (handleToolsCall h e lib r req w s) = None \<longleftrightarrow>
     (\<exists>g t p. routed h e lib r req (p_catalog s) = Some (g, t, p, Some JNull) \<and> Stateless (t_Backend t))"
proof (cases "routed h e lib r req (p_catalog s)")
  case None
  then show ?thesis by (simp add: handleToolsCall_resp toolsCall_unrouted)
next
  case (Some x)
  then obtain g t p c where x: "routed h e lib r req (p_catalog s) = Some (g, t, p, c)" by (cases x) auto
  then show ?thesis by (auto simp: handleToolsCall_resp toolsCall_routed(2) [OF x] route_def routeToBackend_panic)
qed

text \<open>C19. The endpoint answers every request, except one: a \<open>tools/call\<close> of an admitted caller whose params are
  the JSON value \<open>null\<close> and that is routed to a stateless backend (a caller with one tenant and a
  catalog not fetched yet, say) makes the handler panic.\<close>

theorem panic_iff:
  "fst (ServeHTTP h e lib r s) = None \<longleftrightarrow>
     hmethod r = ''POST'' \<and> \<not> hread_err r
     \<and> (\<exists>req g t p. Unmarshal_request_text (hbody r) = Inr req \<and> rq_Method req = ''tools/call'' \<and> rq_Params req = Some JNull
          \<and> routed h e lib r req (p_catalog s) = Some (g, t, p, Some JNull) \<and> Stateless (t_Backend t))"
proof -
  have "routed h e lib r req cs = Some (g, t, p, Some JNull) \<Longrightarrow> rq_Params req = Some JNull" for req cs g t p
    using routed_SomeD(4) strip_null by blast
  moreover have "fst (handlePost h e lib r s) = None \<longleftrightarrow>
      \<not> hread_err r \<and> (\<exists>req g t p. Unmarshal_request_text (hbody r) = Inr req \<and> rq_Method req = ''tools/call''
          \<and> routed h e lib r req (p_catalog s) = Some (g, t, p, Some JNull) \<and> Stateless (t_Backend t))"
    by (cases "Unmarshal_request_text (hbody r)")
      (auto simp: handlePost_def Let_def case_prod_beta call_panic)
  ultimately show ?thesis by (auto simp: ServeHTTP_def case_prod_beta)
qed

text \<open>Such a request.\<close>

lemma panic_example:
  "fst (ServeHTTP stateless_handler quiet_env example_lib
     (demo_post [] (''{'' @ quoted ''method'' @ '':'' @ quoted ''tools/call'' @ '','' @ quoted ''id'' @ '':1,'' @ quoted ''params'' @ '':null}''))
     (start_state stateless_handler new_obs 100 5 init_io)) = None"
  by code_simp

section \<open>What of a request matters\<close>

lemma routeToBackend_request:
  "Header_Get (hheaders r') mcpSessionHeader = Header_Get (hheaders r) mcpSessionHeader \<Longrightarrow>
   routeToBackend e r' i t b n ph w s = routeToBackend e r i t b n ph w s"
  unfolding routeToBackend_def by (simp only:)

lemma handleToolsCall_request:
  assumes "Groups lib' (h_Verifier h) r' = Groups lib (h_Verifier h) r"
    and "Header_Get (hheaders r') mcpSessionHeader = Header_Get (hheaders r) mcpSessionHeader"
    and "metadataURL (h_ServerCfg h) r' = metadataURL (h_ServerCfg h) r"
  shows "handleToolsCall h e lib' r' req w s = handleToolsCall h e lib r req w s"
  unfolding handleToolsCall_def toolsCall_def Let_def assms(1) authFailure_def assms(3) routeToBackend_request [OF assms(2)]
  by (rule refl)

text \<open>C10. Of a request only its method, its body, its session header and the groups its token grants influence
  what the proxy does: two requests that agree on these have the same response and the same effects,
  the requests to backends included. The token itself, and every other header of the client, has no
  other way to a backend. (The address under which the proxy was reached only shows in the challenge
  of a refused call.)\<close>

theorem only_the_groups_matter:
  assumes "hmethod r' = hmethod r" and "hbody r' = hbody r" and "hread_err r' = hread_err r"
    and "Header_Get (hheaders r') mcpSessionHeader = Header_Get (hheaders r) mcpSessionHeader"
    and "Groups lib' (h_Verifier h) r' = Groups lib (h_Verifier h) r"
    and "metadataURL (h_ServerCfg h) r' = metadataURL (h_ServerCfg h) r"
  shows "ServeHTTP h e lib' r' s = ServeHTTP h e lib r s"
proof -
  have "handleToolsList h e lib' r' req w s = handleToolsList h e lib r req w s" for req w
    unfolding handleToolsList_def assms(5) by (rule refl)
  moreover have "handleDelete h r' s = handleDelete h r s"
    unfolding handleDelete_def assms(4) by (rule refl)
  ultimately show ?thesis
    unfolding ServeHTTP_def handlePost_def assms(1-3) by (simp only: handleToolsCall_request [OF assms(5,4,6)])
qed

text \<open>Another token with the same groups, and another user agent.\<close>

definition other_lib :: jwtlib where
  "other_lib = example_lib\<lparr>ParseWithClaims := \<lambda>tok kf opts. if tok = ''other'' then Inr example_claims else Inl ''invalid''\<rparr>"

definition other_post :: "string \<Rightarrow> string \<Rightarrow> hreq" where
  "other_post sid body = (demo_post sid body)\<lparr>hheaders :=
     [(''User-Agent'', ''x''), (''Mcp-Session-Id'', sid), (''Authorization'', ''Bearer other'')]\<rparr>"

theorem only_the_groups_matter_witness:
  "ServeHTTP demo_handler demo_env other_lib (other_post demo_sid body_call) demo_init =
     ServeHTTP demo_handler demo_env example_lib (demo_post demo_sid body_call) demo_init
   \<and> length (sent (p_io (snd (ServeHTTP demo_handler demo_env example_lib (demo_post demo_sid body_call) demo_init)))) = 3"
proof
  have "Groups other_lib example_verifier (other_post demo_sid body_call) = Inr [''dev'', ''ops'']"
    "Groups example_lib example_verifier (demo_post demo_sid body_call) = Inr [''dev'', ''ops'']" by code_simp+
  moreover have "Header_Get (hheaders (other_post demo_sid body_call)) mcpSessionHeader =
      Header_Get (hheaders (demo_post demo_sid body_call)) mcpSessionHeader" by code_simp
  moreover have "metadataURL (h_ServerCfg demo_handler) (other_post demo_sid body_call) =
      metadataURL (h_ServerCfg demo_handler) (demo_post demo_sid body_call)" by code_simp
  ultimately show "ServeHTTP demo_handler demo_env other_lib (other_post demo_sid body_call) demo_init =
      ServeHTTP demo_handler demo_env example_lib (demo_post demo_sid body_call) demo_init"
    by (intro only_the_groups_matter) (simp_all add: other_post_def demo_post_def demo_handler_def)
  show "length (sent (p_io (snd (ServeHTTP demo_handler demo_env example_lib (demo_post demo_sid body_call) demo_init)))) = 3"
    using demo_called_facts(2) by (simp add: demo_called_def)
qed

section \<open>The end of a session\<close>

lemma concat_spawned:
  "concat (map (\<lambda>t. case f (t_ID t) of None \<Rightarrow> [] | Some b \<Rightarrow> if b \<noteq> [] then [(t, b)] else []) ts) =
   map (\<lambda>t. (t, the (f (t_ID t)))) (filter (\<lambda>t. \<exists>b. f (t_ID t) = Some b \<and> b \<noteq> []) ts)"
  by (induction ts) (auto split: option.split)

lemma Delete_bound:
  "Delete i st = (x, st') \<Longrightarrow> map_option BackendSID x = (if map_of (st_m st) i = None then None else Some (bound_sid st i))"
  by (auto simp: Delete_def bound_sid_def fun_eq_iff split: option.splits)

text \<open>C17. A DELETE ends exactly one client session: it answers 204 and sends nothing itself; the session no
  longer holds any backend session and no other session changes; and one teardown is scheduled for
  each tenant the session had opened a backend session for, with that backend session.\<close>

theorem delete_tears_down:
  assumes "\<not> AllStateless (h_Registry h)" and "reg_wf (h_Registry h)" and "store_wf (p_sessions s)" and "hmethod r = ''DELETE''"
  shows "\<exists>w new. fst (ServeHTTP h e lib r s) = Some w \<and> rstatus w = 204
    \<and> p_io (snd (ServeHTTP h e lib r s)) = p_io s
    \<and> bound_sid (p_sessions (snd (ServeHTTP h e lib r s))) j t =
        (if j = Header_Get (hheaders r) mcpSessionHeader then None else bound_sid (p_sessions s) j t)
    \<and> p_tasks (snd (ServeHTTP h e lib r s)) = p_tasks s @ new \<and> distinct (map (t_ID \<circ> fst) new)
    \<and> (u, b) \<in> set new = (u \<in> set (Tenants (h_Registry h)) \<and> b \<noteq> []
        \<and> bound_sid (p_sessions s) (Header_Get (hheaders r) mcpSessionHeader) (t_ID u) = Some b)"
proof -
  let ?i = "Header_Get (hheaders r) mcpSessionHeader" and ?ts = "Tenants (h_Registry h)"
  obtain x st where d: "Delete ?i (p_sessions s) = (x, st)" by fastforce
  have st: "bound_sid st j t = (if j = ?i then None else bound_sid (p_sessions s) j t)" for j t
    using d assms(3) by (auto simp: Delete_def bound_sid_def store_wf_def delete_conv' split: option.splits simp del: map_of_eq_Some_iff)
  define new where "new = (case x of None \<Rightarrow> [] | Some sess \<Rightarrow>
      map (\<lambda>t. (t, the (BackendSID sess (t_ID t)))) (filter (\<lambda>t. \<exists>b. BackendSID sess (t_ID t) = Some b \<and> b \<noteq> []) ?ts))"
  have "snd (ServeHTTP h e lib r s) = s\<lparr>p_sessions := st, p_tasks := p_tasks s @ new\<rparr>"
    using assms(1,4) d by (auto simp: ServeHTTP_def handleDelete_def concat_spawned new_def Let_def split: option.split)
  moreover have "fst (ServeHTTP h e lib r s) = Some (new_resp\<lparr>rstatus := 204\<rparr>)"
    using assms(1,4) d by (auto simp: ServeHTTP_def handleDelete_def Let_def split: option.split)
  moreover have "distinct (map (t_ID \<circ> fst) new)"
    using distinct_Tenants_ids [OF assms(2)] by (auto simp: new_def comp_def distinct_map_filter split: option.split)
  moreover have "(u, b) \<in> set new = (u \<in> set ?ts \<and> b \<noteq> [] \<and> bound_sid (p_sessions s) ?i (t_ID u) = Some b)"
  proof (cases x)
    case None
    then have "map_of (st_m (p_sessions s)) ?i = None" using Delete_bound [OF d] by (simp split: if_splits)
    with None show ?thesis by (simp add: new_def bound_sid_def)
  next
    case (Some sess)
    then have "BackendSID sess = bound_sid (p_sessions s) ?i" using Delete_bound [OF d] by (simp split: if_splits)
    with Some show ?thesis by (auto simp: new_def image_iff)
  qed
  ultimately show ?thesis using st by simp
qed

theorem delete_tears_down_witness:
  "\<exists>new. p_tasks demo_deleted = p_tasks demo_called @ new
     \<and> (\<exists>u. (u, ''b-1'') \<in> set new \<and> t_ID u = ''corp'') \<and> bound_sid (p_sessions demo_deleted) demo_sid ''corp'' = None"
proof -
  let ?r = "(demo_post demo_sid [])\<lparr>hmethod := ''DELETE''\<rparr>"
  have i: "Header_Get (hheaders ?r) mcpSessionHeader = demo_sid" by code_simp
  have a: "\<not> AllStateless (h_Registry demo_handler)" by code_simp
  have wf: "store_wf (p_sessions demo_called)"
    using reach_inv [OF demo_reach(2) demo_handler_wf] by (simp add: proxy_inv_def store_issued_def)
  have reg: "h_Registry demo_handler = demo_registry" by (simp add: demo_handler_def)
  define u where "u = demo_tenant ''corp'' ''dev'' stateful_backend ''pat''"
  have u: "u \<in> set (Tenants demo_registry)" "t_ID u = ''corp''"
    by (simp_all add: u_def demo_registry_def Tenants_def demo_tenant_def)
  have m: "hmethod ?r = ''DELETE''" by simp
  from delete_tears_down [OF a demo_handler_wf wf m, of demo_env example_lib demo_sid "''corp''" u "''b-1''"]
  obtain new where "p_tasks demo_deleted = p_tasks demo_called @ new"
    and "bound_sid (p_sessions demo_deleted) demo_sid ''corp'' = None" and "(u, ''b-1'') \<in> set new"
    unfolding i reg demo_deleted_def [symmetric] u(2) demo_called_facts(1) using u(1) by auto
  with u(2) show ?thesis by blast
qed

section \<open>The handshake\<close>

text \<open>The JSON-RPC method of a request to a backend.\<close>

definition rpc_method :: "breq \<Rightarrow> string" where
  "rpc_method q =
     (case bpayload q of
        Some (JObj kvs) \<Rightarrow> (case map_of kvs ''method'' of Some (JStr m) \<Rightarrow> m | _ \<Rightarrow> [])
      | _ \<Rightarrow> [])"

lemma rpc_method_request [simp]:
  "rpc_method (client_request e c (Marshal_request \<lparr>rq_JSONRPC = j, rq_Method = m, rq_Params = p, rq_ID = i\<rparr>) sid cred hs meth n w) = m"
  by (simp add: rpc_method_def client_request_def Marshal_request_def)

lemma post_methods:
  "url_ok b \<Longrightarrow>
   map rpc_method (sent (snd (post e (newBackendClient b) (Marshal_request \<lparr>rq_JSONRPC = j, rq_Method = m, rq_Params = p, rq_ID = i\<rparr>)
     sid cred hs meth n w))) = map rpc_method (sent w) @ [m]"
  by (auto simp: url_ok_def post_eq Let_def)

lemma initialize_methods:
  "url_ok b \<Longrightarrow> initialize e (newBackendClient b) p cred w = (x, w') \<Longrightarrow>
   map rpc_method (sent w') = map rpc_method (sent w) @ [''initialize'']"
  using post_methods [of b e "''2.0''" "''initialize''" "Some p" "Some (JNum ''1'')" "[]" cred "[]" "''initialize''" "[]" w]
    snd_initialize [of e "newBackendClient b" p cred w] by simp

lemma opened_methods:
  "url_ok (t_Backend t) \<Longrightarrow>
   map rpc_method (sent (opened e t sid w)) = map rpc_method (sent w) @ (if sid \<noteq> [] then [''notifications/initialized''] else [])"
  by (simp add: opened_def notifyInitialized_def post_methods)

definition tool_call :: "RawMessage \<Rightarrow> RawMessage \<Rightarrow> json" where
  "tool_call c i = Marshal_request \<lparr>rq_JSONRPC = ''2.0'', rq_Method = ''tools/call'', rq_Params = c, rq_ID = i\<rparr>"

lemma forward_methods:
  "url_ok (t_Backend t) \<Longrightarrow> \<not> Stateless (t_Backend t) \<Longrightarrow>
   map rpc_method (sent (p_io (snd (forwardCall e t sid i (tool_call c k) hs n w s)))) =
     map rpc_method (sent (p_io s)) @ [''tools/call'']"
  by (simp add: forwardCall_io callTool_def tool_call_def post_methods case_prod_beta split: sum.split)

lemma bound_after_Get:
  assumes "store_wf st" and "Get e i st w = (Some sess, st', w')"
  shows "bound_sid st' i = BackendSID sess" and "map_of (st_m st') i \<noteq> None"
  using assms by (auto simp: Get_eq Let_def bound_sid_def fun_eq_iff split: option.splits)

lemma bound_after_Set:
  "map_of (st_m st) i \<noteq> None \<Longrightarrow> bound_sid (fst (SetBackendSID e i t b st w)) i t = Some b"
  by (auto simp: SetBackendSID_eq bound_sid_def BackendSID_def split: option.splits)



section \<open>A null error\<close>

text \<open>A backend that answers \<^verbatim>\<open>"error": null\<close> beside its result, as some servers do, is taken for one that
  failed: a raw field holds the bytes \<open>null\<close>, and only its length is looked at.\<close>

definition null_error_env :: env where
  "null_error_env = quiet_env\<lparr>transport := (\<lambda>_ _. Inr \<lparr>bstatus = 200, brheaders = [],
     bbody = (let q = [CHR 0x22] in ''{'' @ q @ ''result'' @ q @ '':{},'' @ q @ ''error'' @ q @ '':null}''), bread_err = False\<rparr>)\<rparr>"

lemma null_error_refused:
  "fst (initialize null_error_env (newBackendClient example_backend) (JObj []) [] init_io) = Inl ''initialize error''"
  by code_simp

end
