(* ===== verification/Metrics.thy ===== *)
theory Metrics
  imports Endpoint
begin

text \<open>
  What the operator sees: the counters of \<^verbatim>\<open>internal/observability/observability.go\<close> as the endpoint of
  \<^verbatim>\<open>internal/proxy/handler.go\<close> drives them, against what the clients were answered.
\<close>

section \<open>The record of a call\<close>

text \<open>The JSON-RPC request an HTTP request carries, if it carries one.\<close>

definition decoded :: "hreq \<Rightarrow> jsonRPCRequest option" where
  "decoded r =
     (if hmethod r = ''POST'' \<and> \<not> hread_err r
      then (case Unmarshal_request_text (hbody r) of Inl _ \<Rightarrow> None | Inr req \<Rightarrow> Some req) else None)"

text \<open>The error a failed call is recorded with: not admitted, not understood, or without a tenant.\<close>

definition refusal :: "auth_error \<Rightarrow> string" where
  "refusal err = (case err of ErrInsufficientScope \<Rightarrow> ''insufficient_scope'' | ErrUnauthorized _ \<Rightarrow> ''unauthorized''
     | OtherError _ \<Rightarrow> ''auth_error'')"

text \<open>What the caller of a routed call is told when it fails: the client session is unknown, the backend
  session cannot be opened, the call itself fails.\<close>

definition call_failed :: "RawMessage \<Rightarrow> hresp option \<Rightarrow> bool" where
  "call_failed i resp \<longleftrightarrow> (\<exists>w. resp \<in> {Some (writeRPCError i (- 32000) ''session not found; call initialize first'' w),
     Some (writeRPCError i (- 32002) ''failed to open backend session'' w), Some (writeRPCError i (- 32003) ''backend call failed'' w)})"

text \<open>The attributes \<open>a\<close> tell what became of the call \<open>req\<close> that was answered \<open>resp\<close>.\<close>

definition describes ::
    "Handler \<Rightarrow> env \<Rightarrow> jwtlib \<Rightarrow> hreq \<Rightarrow> jsonRPCRequest \<Rightarrow> Catalogs \<Rightarrow> ToolCallAttrs \<Rightarrow> hresp option \<Rightarrow> bool" where
  "describes h e lib r req cs a resp \<longleftrightarrow> a_Method a = ''tools/call'' \<and>
     (case routed h e lib r req cs of
        Some (g, t, p, c) \<Rightarrow>
          a_Tool a = tp_Name p \<and> a_TenantID a = t_ID t \<and> a_Backend a = b_Name (t_Backend t)
          \<and> (if a_ErrorType a = [] then resp = None \<or> (\<exists>b w. resp = Some (writeBytes b w))
             else a_ErrorType a = ''backend_error'' \<and> call_failed (rq_ID req) resp)
      | None \<Rightarrow>
          resp \<noteq> None \<and>
          (case Groups lib (h_Verifier h) r of
             Inl err \<Rightarrow> a_Tool a = [] \<and> a_ErrorType a = refusal err
           | Inr g \<Rightarrow>
               (case Unmarshal_toolCallParams (rq_Params req) of
                  Inl _ \<Rightarrow> a_Tool a = [] \<and> a_ErrorType a = ''invalid_params''
                | Inr p \<Rightarrow> a_Tool a = tp_Name p
                    \<and> (if tp_Name p = listInstancesTool then a_ErrorType a = []
                       else a_ErrorType a \<in> {''tenant_selection'', ''invalid_params''}))))"

lemma forwardCall_answer:
  "fst (forwardCall e t sid i b hs n w s) = (resp, ok) \<Longrightarrow>
   resp = None \<or> (if ok then \<exists>bs. resp = Some (writeBytes bs w) else call_failed i resp)"
  unfolding call_failed_def forwardCall_def by (auto split: prod.splits option.splits sum.splits)

lemma route_answer:
  assumes "fst (routeToBackend e r i t b n ph w s) = (resp, ok)"
  shows "resp = None \<or> (if ok then \<exists>bs. resp = Some (writeBytes bs w) else call_failed i resp)"
  using assms
proof (cases rule: route_cases [where t = t and e = e and r = r and s = s])
  case (unknown st io)
  then show ?thesis using assms by (auto simp: routeToBackend_unknown call_failed_def)
next
  case (failed sess st io err io1)
  then show ?thesis using assms by (auto simp: routeToBackend_failed call_failed_def)
qed (use assms in \<open>simp_all add: routeToBackend_eqs Let_def forwardCall_answer\<close>)

lemma toolsCall_describes:
  "describes h e lib r req (p_catalog s) (snd (fst (toolsCall h e lib r req w s))) (fst (fst (toolsCall h e lib r req w s)))"
proof (cases "routed h e lib r req (p_catalog s)")
  case None
  have auth: "snd (authFailure h r i err w) = refusal err" for i err
    by (simp add: authFailure_def refusal_def Let_def split: auth_error.split)
  have "authFailure h r i err w = (w1, k) \<Longrightarrow> k = refusal err" for i err w1 k
    using auth [of i err] by simp
  with None toolsCall_unrouted [OF None, of w] show ?thesis
    by (auto simp: describes_def toolsCall_def routed_def Let_def split: sum.splits if_splits prod.splits)
next
  case (Some x)
  then obtain g t p c where x: "routed h e lib r req (p_catalog s) = Some (g, t, p, c)" by (cases x) auto
  obtain resp ok where ans: "fst (route e r req t p c w s) = (resp, ok)" by (cases "fst (route e r req t p c w s)") auto
  from route_answer [OF ans [unfolded route_def]] show ?thesis
    by (auto simp: describes_def x toolsCall_attrs [OF x] toolsCall_routed(2) [OF x] ans split: if_splits)
qed

lemma call_obs:
  "p_obs (snd (handleToolsCall h e lib r req w s)) =
     RecordToolCall (snd (fst (toolsCall h e lib r req w s))) (p_obs s)"
proof (cases "routed h e lib r req (p_catalog s)")
  case None
  then show ?thesis by (simp add: handleToolsCall_state Let_def toolsCall_unrouted)
next
  case (Some x)
  then obtain g t p c where "routed h e lib r req (p_catalog s) = Some (g, t, p, c)" by (cases x) auto
  then show ?thesis
    by (simp add: handleToolsCall_state Let_def toolsCall_routed route_def routeToBackend_frame)
qed

section \<open>The counters of the endpoint\<close>

definition gives_session :: "hresp option \<Rightarrow> bool" where
  "gives_session resp \<longleftrightarrow> (\<exists>w. resp = Some w \<and> map_of (rheaders w) mcpSessionHeader \<noteq> None)"

lemma gives_session_eq [simp]: "gives_session (Some w) \<longleftrightarrow> snd (protocol w) \<noteq> None" "\<not> gives_session None"
  by (simp_all add: gives_session_def protocol_def)

lemma call_gives_none: "snd (protocol w) = None \<Longrightarrow> \<not> gives_session (fst (handleToolsCall h e lib r req w s))"
  by (cases "fst (handleToolsCall h e lib r req w s)") (auto dest: protocol_call)

lemma delete_frame: "p_obs (snd (handleDelete h r s)) = p_obs s \<and> protocol (fst (handleDelete h r s)) = (None, None)"
  by (simp add: handleDelete_def Let_def split: prod.split option.split)

lemma none_decoded:
  assumes "decoded r = None"
  shows "p_obs (snd (ServeHTTP h e lib r s)) = p_obs s \<and> \<not> gives_session (fst (ServeHTTP h e lib r s))"
proof (cases "hmethod r = ''POST''")
  case True
  with assms show ?thesis
    by (auto simp: decoded_def ServeHTTP_def handlePost_def split: sum.splits if_splits)
next
  case False
  then show ?thesis
    by (simp add: ServeHTTP_def delete_frame case_prod_beta)
qed

text \<open>C28. The counters are true to what clients were answered. A request adds to the operations counter
  only when it is a \<open>tools/call\<close>, and then exactly once, whether or not it is admitted, understood,
  routed or answered: with the tool, the tenant and the backend it was routed to, without an error
  type when the backend's answer was passed on and with one when the caller got an error; except that
  a call whose handler panics is counted as a success. The sessions counter counts exactly the
  responses that give the client a session.\<close>

theorem requests_counted:
  "(\<exists>calls. opCount (p_obs (snd (ServeHTTP h e lib r s))) = opCount (p_obs s) @ map call_attrs calls
      \<and> (case decoded r of
           None \<Rightarrow> calls = []
         | Some req \<Rightarrow> if rq_Method req = ''tools/call''
             then \<exists>a. calls = [a] \<and> describes h e lib r req (p_catalog s) a (fst (ServeHTTP h e lib r s)) else calls = []))
   \<and> sessionCount (p_obs (snd (ServeHTTP h e lib r s))) =
       sessionCount (p_obs s) + (if gives_session (fst (ServeHTTP h e lib r s)) then 1 else 0)"
proof (cases "decoded r")
  case None
  with none_decoded [OF None, of h e lib s] show ?thesis by simp
next
  case (Some req)
  then have post: "hmethod r = ''POST''" "\<not> hread_err r" "Unmarshal_request_text (hbody r) = Inr req"
    by (auto simp: decoded_def split: if_splits sum.splits)
  let ?w = "if AllStateless (h_Registry h) then set_hdr mcpProtocolVersionHeader ProtocolVersionStateless new_resp else new_resp"
  have w: "snd (protocol ?w) = None" by simp
  show ?thesis
  proof (cases "rq_Method req = ''tools/call''")
    case True
    with post have "ServeHTTP h e lib r s = handleToolsCall h e lib r req ?w s"
      by (simp add: ServeHTTP_def handlePost_def Let_def)
    with toolsCall_describes [of h e lib r req s ?w] call_gives_none [OF w, of h e lib r req s] True show ?thesis
      by (auto simp: Some call_obs RecordToolCall_def handleToolsCall_resp intro!: exI [of _ "[_]"])
  next
    case False
    with post w list_frame [of h e lib r req ?w s] show ?thesis
      by (auto simp: Some ServeHTTP_def handlePost_def Let_def case_prod_beta handleInitialize_def handleDiscover_def
          RecordSession_def)
  qed
qed

end
