(* ===== verification/Races.thy ===== *)
theory Races
  imports Isolation
begin

text \<open>
  What concurrent requests of one client session can do to each other: a schedule picks which of the
  calls in progress takes the next step, and two first calls to one stateful tenant both open a
  backend session.
\<close>

section \<open>Two first calls at once\<close>

text \<open>The run of a schedule: which of the calls in progress takes the next step.\<close>

fun schedule :: "env \<Rightarrow> nat list \<Rightarrow> Proxy \<times> (Call \<times> pc) list \<Rightarrow> Proxy \<times> (Call \<times> pc) list" where
  "schedule e [] x = x"
| "schedule e (i # is) (s, cs) =
     (case cs ! i of (c, pc) \<Rightarrow> case call_step e c pc s of (pc', s') \<Rightarrow> schedule e is (s', cs[i := (c, pc')]))"

lemma schedule_reach:
  assumes "reg_wf (h_Registry h)"
  shows "proxy_reach h e s cs \<Longrightarrow> \<forall>i \<in> set is. i < length cs \<Longrightarrow> schedule e is (s, cs) = (s', cs') \<Longrightarrow>
    proxy_reach h e s' cs' \<and> safe_step e h s s'"
proof (induction "is" arbitrary: s cs)
  case Nil
  then show ?case using reach_inv assms safe_refl by auto
next
  case (Cons i "is")
  obtain c pc where c: "cs ! i = (c, pc)" by fastforce
  obtain pc1 s1 where st: "call_step e c pc s = (pc1, s1)" by fastforce
  have i: "i < length cs" using Cons.prems by simp
  have "proxy_reach h e s1 (cs[i := (c, pc1)])" by (rule proxy_reach.step [OF Cons.prems(1) i c st])
  with Cons.IH [of s1 "cs[i := (c, pc1)]"] Cons.prems c st
  have "proxy_reach h e s' cs' \<and> safe_step e h s1 s'" by simp
  moreover have "safe_step e h s s1"
    using call_step_safe [OF _ assms _ st] reach_inv [OF Cons.prems(1) assms] i c by (metis list_all_length)
  ultimately show ?case using safe_trans by blast
qed

text \<open>A backend that hands out a new session id at every answer.\<close>

definition race_env :: env where
  "race_env = quiet_env\<lparr>transport := \<lambda>qs q. Inr \<lparr>bstatus = 200,
     brheaders = [(''Content-Type'', ''application/json''), (''Mcp-Session-Id'', ''b-'' @ [char_of (48 + length qs)])],
     bbody = ''{'' @ quoted ''result'' @ '':{}}'', bread_err = False\<rparr>\<rparr>"

definition race_start :: Proxy where
  "race_start = snd (ServeHTTP demo_handler race_env example_lib (demo_post [] body_initialize)
     (start_state demo_handler new_obs 100 5 init_io))"

definition race_request :: jsonRPCRequest where
  "race_request = demo_call\<lparr>rq_Params :=
     Some (JObj [(''name'', JStr ''f''), (''arguments'', JObj [(''tenant'', JStr ''corp'')])])\<rparr>"

definition race_call :: "Call option" where
  "race_call = begin_call demo_handler race_env example_lib (demo_post demo_sid []) race_request new_resp race_start"

definition race_schedule :: "nat list \<Rightarrow> Proxy \<times> (Call \<times> pc) list" where
  "race_schedule is = schedule race_env is (race_start, [(the race_call, Lookup), (the race_call, Lookup)])"

text \<open>Both look up the session before either has opened a backend session; the first goes on to record its
  own, then the second overwrites it. The client deletes its session, and the teardown runs.\<close>

definition race_first :: "Proxy \<times> (Call \<times> pc) list" where
  "race_first = race_schedule [0, 1, 0, 0, 0]"

definition race_both :: "Proxy \<times> (Call \<times> pc) list" where
  "race_both = schedule race_env [0, 0, 1, 1, 1, 1, 1] race_first"

definition race_end :: Proxy where
  "race_end = run_task race_env 0
     (snd (ServeHTTP demo_handler race_env example_lib ((demo_post demo_sid [])\<lparr>hmethod := ''DELETE''\<rparr>) (fst race_both)))"

lemma race_steps:
  "proxy_reach demo_handler race_env (fst race_first) (snd race_first)"
  "proxy_reach demo_handler race_env race_end (snd race_both) \<and> safe_step race_env demo_handler (fst race_first) race_end"
proof -
  have 0: "proxy_reach demo_handler race_env race_start []"
    unfolding race_start_def by (intro proxy_reach.serve proxy_reach.start) (simp add: init_io_def)
  have "race_call \<noteq> None" by code_simp
  then have c: "begin_call demo_handler race_env example_lib (demo_post demo_sid []) race_request new_resp race_start = Some (the race_call)"
    by (simp add: race_call_def)
  have 2: "proxy_reach demo_handler race_env race_start [(the race_call, Lookup), (the race_call, Lookup)]"
    using proxy_reach_call [OF proxy_reach_call [OF 0 c] c] by simp
  show first: "proxy_reach demo_handler race_env (fst race_first) (snd race_first)"
    using schedule_reach [OF demo_handler_wf 2, of "[0, 1, 0, 0, 0]"] by (simp add: race_first_def race_schedule_def)
  have "length (snd race_first) = 2" by code_simp
  then have both: "proxy_reach demo_handler race_env (fst race_both) (snd race_both)"
    and 3: "safe_step race_env demo_handler (fst race_first) (fst race_both)"
    using schedule_reach [OF demo_handler_wf first _ surjective_pairing, of "[0, 0, 1, 1, 1, 1, 1]"]
    by (simp_all add: race_both_def)
  have "safe_step race_env demo_handler (fst race_both) race_end"
    unfolding race_end_def using reach_inv [OF both demo_handler_wf] demo_handler_wf
    by (intro safe_trans [OF ServeHTTP_safe run_task_safe] safe_stepD [OF ServeHTTP_safe]) auto
  with both 3 show "proxy_reach demo_handler race_env race_end (snd race_both)
      \<and> safe_step race_env demo_handler (fst race_first) race_end"
    unfolding race_end_def by (blast intro: proxy_reach.task proxy_reach.serve safe_trans)
qed

text \<open>What matters of the final state: pending teardowns, client sessions, and the backend sessions torn down.\<close>

definition torn_down :: "Proxy \<Rightarrow> nat \<times> nat \<times> string option list" where
  "torn_down s = (length (p_tasks s), length (st_m (p_sessions s)),
     map (\<lambda>q. map_of (bheaders q) mcpSessionHeader) (filter (\<lambda>q. bmethod q = ''DELETE'') (sent (p_io s))))"

lemma race_first_bound: "bound_sid (p_sessions (fst race_first)) demo_sid ''corp'' = Some ''b-0''"
  by code_simp

lemma race_both_done: "map (steps_left \<circ> snd) (snd race_both) = [0, 0]"
  by code_simp

lemma race_torn_down: "torn_down race_end = (0, 0, [Some ''b-3''])"
  by code_simp


section \<open>A session deleted during a handshake\<close>

text \<open>When the client's session is deleted, or expires, while a call of it opens a backend session, the call goes
  on with that session, but nothing records it and nothing will tear it down.\<close>

lemma bind_after_delete:
  assumes "map_of (st_m (p_sessions s)) (Header_Get (hheaders (c_request c)) mcpSessionHeader) = None"
  shows "call_step e c (Bind sid) s = (Forward sid, s)"
  using assms by (simp add: SetBackendSID_def)

end
