(* ===== verification/Wiring.thy ===== *)
theory Wiring
  imports Isolation
begin

text \<open>
  The process (\<^verbatim>\<open>cmd/mt-mcp-proxy/main.go\<close>): reading the configuration, building the parts in order,
  the first warming of the catalogs with its retries, the routes of the two listeners. Signals, the
  listeners themselves, the shutdown deadline and the log are left out.
\<close>

section \<open>Routes\<close>

text \<open>
  The part of \<^verbatim>\<open>http.ServeMux\<close> the process uses, for patterns that are plain paths (no blank, brace or
  percent sign). Registering a pattern without a slash, or twice, panics; a path is served by the
  pattern equal to it, or else by the longest pattern that ends in a slash and is a prefix of it.
\<close>

type_synonym 'h mux = "(string \<times> 'h) list"

definition mux_Handle :: "string \<Rightarrow> 'h \<Rightarrow> 'h mux \<Rightarrow> 'h mux option" where
  "mux_Handle pat x m = (if CHR ''/'' \<notin> set pat \<or> map_of m pat \<noteq> None then None else Some (m @ [(pat, x)]))"

definition mux_match :: "'h mux \<Rightarrow> string \<Rightarrow> 'h option" where
  "mux_match m path =
     (case map_of m path of
        Some x \<Rightarrow> Some x
      | None \<Rightarrow>
          (case sort_key (length \<circ> fst) (filter (\<lambda>(pat, _). HasSuffix pat ''/'' \<and> HasPrefix path pat) m) of
             [] \<Rightarrow> None
           | ms \<Rightarrow> Some (snd (last ms))))"

datatype route = Endpoint | ProtectedResourceMetadata | Healthz | Metrics

definition wellKnown :: string where
  "wellKnown = ''/.well-known/oauth-protected-resource''"

fun mux_Handle_all :: "(string \<times> 'h) list \<Rightarrow> 'h mux \<Rightarrow> 'h mux option" where
  "mux_Handle_all [] m = Some m"
| "mux_Handle_all ((pat, x) # rs) m = (case mux_Handle pat x m of None \<Rightarrow> None | Some m1 \<Rightarrow> mux_Handle_all rs m1)"

definition data_routes :: "ServerConfig \<Rightarrow> (string \<times> route) list" where
  "data_routes sc =
     [(Path sc, Endpoint), (wellKnown, ProtectedResourceMetadata), (wellKnown @ Path sc, ProtectedResourceMetadata),
      (''/healthz'', Healthz)]"

definition obs_routes :: "Observability \<Rightarrow> (string \<times> route) list" where
  "obs_routes ob = [(obs_MetricsPath (Some ob), Metrics), (''/healthz'', Healthz)]"

section \<open>Start-up\<close>

text \<open>What the process gets from its surroundings.\<close>

record system =
  sy_ReadFile :: "string \<Rightarrow> string + string"
  sy_yaml_Unmarshal :: "string \<Rightarrow> string + Config"
  sy_LookupEnv :: "string \<Rightarrow> string option"
  sy_keylib :: keylib
  sy_otel :: otel
  sy_version :: string

datatype run_error =
    LoadError config_error
  | VerifierError string
  | RegistryError reg_error
  | SetupError string

text \<open>The process when it has started: the data listener, the metrics listener if there is one, and whether
  the warming of the catalogs is being retried.\<close>

record Process =
  pr_handler :: Handler
  pr_state :: Proxy
  pr_listen :: string
  pr_mux :: "route mux"
  pr_obs :: "(string \<times> route mux) option"
  pr_retry :: bool

definition minute :: int where
  "minute = 60000000000"

text \<open>\<^verbatim>\<open>warmCatalog\<close> up to its goroutine, and one turn of that goroutine's loop.\<close>

definition warmCatalog :: "env \<Rightarrow> Proxy \<Rightarrow> bool \<times> Proxy" where
  "warmCatalog e s = (case WarmCatalog e s of (errs, s1) \<Rightarrow> (errs \<noteq> [], s1))"

definition retryWarm :: "env \<Rightarrow> Process \<Rightarrow> Process" where
  "retryWarm e p =
     (if pr_retry p
      then (case warmCatalog e (pr_state p) of (again, s) \<Rightarrow> p\<lparr>pr_state := s, pr_retry := again\<rparr>)
      else p)"

text \<open>The routes of both listeners; \<open>None\<close> is a panic of a registration.\<close>

definition startListeners :: "ServerConfig \<Rightarrow> Handler \<Rightarrow> Observability \<Rightarrow> bool \<Rightarrow> Proxy \<Rightarrow> Process option" where
  "startListeners sc h ob again s =
     (case mux_Handle_all (data_routes sc) [] of
        None \<Rightarrow> None
      | Some m \<Rightarrow>
          (let p = \<lparr>pr_handler = h, pr_state = s, pr_listen = Listen sc, pr_mux = m, pr_obs = None, pr_retry = again\<rparr>;
               addr = obs_MetricsListen (Some ob)
           in if addr = [] then Some p
              else case mux_Handle_all (obs_routes ob) [] of
                     None \<Rightarrow> None
                   | Some om \<Rightarrow> Some (p\<lparr>pr_obs := Some (addr, om)\<rparr>)))"

text \<open>\<^verbatim>\<open>run\<close> up to the point where it listens: an error, a panic (\<open>Inr None\<close>), or the process. The session
  store and the catalogs are built with their times to live in nanoseconds.\<close>

definition obs_config :: "system \<Rightarrow> Config \<Rightarrow> ObsConfig" where
  "obs_config sys cfg =
     \<lparr>oc_MetricsListen = MetricsListen (Config.Observability cfg), oc_MetricsPath = MetricsPath (Config.Observability cfg),
      oc_ServiceName = ''mt-mcp-proxy'', oc_ServiceVersion = sy_version sys\<rparr>"

definition run :: "system \<Rightarrow> env \<Rightarrow> string \<Rightarrow> io \<Rightarrow> (run_error + Process option) \<times> io" where
  "run sys e configPath w =
     (case Load (sy_ReadFile sys) (sy_yaml_Unmarshal sys) (sy_LookupEnv sys) configPath of
        Inl err \<Rightarrow> (Inl (LoadError err), w)
      | Inr cfg \<Rightarrow>
          (case NewVerifier (sy_keylib sys) e (Auth cfg) w of
             (Inl err, w1) \<Rightarrow> (Inl (VerifierError err), w1)
           | (Inr verifier, w1) \<Rightarrow>
               (case New (Backends cfg) of
                  Inl err \<Rightarrow> (Inl (RegistryError err), w1)
                | Inr reg \<Rightarrow>
                    (case Setup (sy_otel sys) (sy_LookupEnv sys) (obs_config sys cfg) of
                       Inl err \<Rightarrow> (Inl (SetupError err), w1)
                     | Inr ob \<Rightarrow>
                         (let h = NewHandler verifier reg (Server cfg) (Auth cfg);
                              s = \<lparr>p_sessions = NewStore (30 * minute), p_catalog = NewCatalogs reg (5 * minute), p_obs = ob,
                                   p_tasks = [], p_io = w1\<rparr>
                          in case warmCatalog e s of
                               (again, s1) \<Rightarrow> (Inr (startListeners (Server cfg) h ob again s1), p_io s1))))))"

definition healthz :: hresp where
  "healthz = new_resp\<lparr>rstatus := 200, rbody := BRaw ''ok''\<rparr>"

text \<open>\<^verbatim>\<open>http.NotFound\<close>.\<close>

definition not_found :: hresp where
  "not_found = (set_hdr ''X-Content-Type-Options'' ''nosniff''
     (set_hdr ''Content-Type'' ''text/plain; charset=utf-8'' new_resp))
       \<lparr>rstatus := 404, rbody := BRaw (''404 page not found'' @ [CHR 0x0A])\<rparr>"

text \<open>A request to the data listener, by its path.\<close>

definition serve :: "env \<Rightarrow> jwtlib \<Rightarrow> string \<Rightarrow> hreq \<Rightarrow> Process \<Rightarrow> hresp option \<times> Process" where
  "serve e lib path r p =
     (case mux_match (pr_mux p) path of
        Some Endpoint \<Rightarrow> (case ServeHTTP (pr_handler p) e lib r (pr_state p) of (resp, s) \<Rightarrow> (resp, p\<lparr>pr_state := s\<rparr>))
      | Some ProtectedResourceMetadata \<Rightarrow>
          (Some (ServeProtectedResourceMetadata (h_ServerCfg (pr_handler p)) (h_AuthCfg (pr_handler p)) r), p)
      | Some Healthz \<Rightarrow> (Some healthz, p)
      | _ \<Rightarrow> (Some not_found, p))"

section \<open>What has started\<close>

lemma NewHandler_simps [simp]:
  "h_Verifier (NewHandler v reg sc ac) = v" "h_Registry (NewHandler v reg sc ac) = reg"
  "h_ServerCfg (NewHandler v reg sc ac) = sc" "h_AuthCfg (NewHandler v reg sc ac) = ac"
  by (simp_all add: NewHandler_def)

lemma discover_startup: "sends startup_request w (snd (discoverJWKSURL e issuer w))"
proof -
  have accept: "Header_Set ''Accept'' ''application/json'' [] = [(''Accept'', ''application/json'')]"
    by code_simp
  show ?thesis
  proof (cases "url_parse issuer")
    case (Inr base)
    let ?u = "url_String (base\<lparr>url_path := TrimRight_char (CHR ''/'') (url_path base) @ ''/.well-known/openid-configuration''\<rparr>)"
    have one: "sends startup_request w (w\<lparr>sent := sent w @ [discovery_request base]\<rparr>)"
      by (rule sends_one) (auto simp: startup_request_def)
    show ?thesis
    proof (cases "url_parse ?u")
      case (Inr u)
      then have "snd (discoverJWKSURL e issuer w) \<in> {w, w\<lparr>sent := sent w @ [discovery_request base]\<rparr>}"
        using \<open>url_parse issuer = Inr base\<close>
        by (auto simp: discoverJWKSURL_def Let_def NewRequest_def accept http_Do_def discovery_request_def
            split: sum.split option.split json.split)
      with one show ?thesis by auto
    qed (simp add: discoverJWKSURL_def Let_def NewRequest_def \<open>url_parse issuer = Inr base\<close>)
  qed (simp add: discoverJWKSURL_def)
qed

lemma NewVerifier_startup: "sends startup_request w (snd (NewVerifier k e c w))"
proof -
  have "snd (NewVerifier k e c w) \<in> {w, snd (discoverJWKSURL e (Issuer c) w)}"
    by (auto simp: NewVerifier_def split: sum.split prod.split)
  then show ?thesis using discover_startup by auto
qed

text \<open>A started process is one that was built from a loaded configuration; its state is the start state after
  one warming of the catalogs.\<close>

lemma run_Some:
  assumes "run sys e configPath w = (Inr (Some p), w')"
  obtains cfg verifier w1 reg ob where
    "Load (sy_ReadFile sys) (sy_yaml_Unmarshal sys) (sy_LookupEnv sys) configPath = Inr cfg"
    "NewVerifier (sy_keylib sys) e (Auth cfg) w = (Inr verifier, w1)" "New (Backends cfg) = Inr reg"
    "startListeners (Server cfg) (NewHandler verifier reg (Server cfg) (Auth cfg)) ob
       (pr_retry p) (pr_state p) = Some p"
    "warmCatalog e (start_state (NewHandler verifier reg (Server cfg) (Auth cfg))
       ob (30 * minute) (5 * minute) w1) = (pr_retry p, pr_state p)"
    "w' = p_io (pr_state p)"
proof -
  have listeners: "pr_retry p = again \<and> pr_state p = s" if "startListeners sc h ob again s = Some p" for sc h ob again s
    using that by (auto simp: startListeners_def Let_def split: option.splits if_splits)
  obtain cfg where c: "Load (sy_ReadFile sys) (sy_yaml_Unmarshal sys) (sy_LookupEnv sys) configPath = Inr cfg"
    using assms by (auto simp: run_def split: sum.splits)
  obtain verifier w1 where v: "NewVerifier (sy_keylib sys) e (Auth cfg) w = (Inr verifier, w1)"
    using assms c by (auto simp: run_def split: sum.splits prod.splits)
  obtain reg where reg: "New (Backends cfg) = Inr reg"
    using assms c v by (auto simp: run_def split: sum.splits)
  obtain ob where ob: "Setup (sy_otel sys) (sy_LookupEnv sys) (obs_config sys cfg) = Inr ob"
    using assms c v reg by (auto simp: run_def split: sum.splits)
  let ?h = "NewHandler verifier reg (Server cfg) (Auth cfg)"
  obtain again s where warm: "warmCatalog e (start_state ?h ob (30 * minute) (5 * minute) w1) = (again, s)" by fastforce
  then have st: "startListeners (Server cfg) ?h ob again s = Some p" "w' = p_io s"
    using assms c v reg ob by (auto simp: run_def start_state_def Let_def)
  with listeners [OF st(1)] that [OF c v reg, of ob] warm show thesis by simp
qed

lemma Load_valid: "Load rf yaml env path = Inr cfg \<Longrightarrow> config_valid cfg"
  by (auto simp: Load_def Validate_correct split: sum.splits)

lemma startListeners_handler: "startListeners sc h ob again s = Some p \<Longrightarrow> pr_handler p = h \<and> pr_listen p = Listen sc
    \<and> mux_Handle_all (data_routes sc) [] = Some (pr_mux p)"
  by (auto simp: startListeners_def Let_def split: option.splits if_splits)

text \<open>When start-up succeeds from a world in which nothing was sent, the registry
  the proxy serves is well formed and holds the tenants of a valid configuration, its verifier is the
  one configured, its state is reachable from the start state, and everything sent so far is the
  discovery of the key set and the requests, for the tenants, of the first warming.\<close>

lemma run_started:
  assumes "run sys e configPath w = (Inr (Some p), w')" and "sent w = []"
  shows "(\<exists>cfg. Load (sy_ReadFile sys) (sy_yaml_Unmarshal sys) (sy_LookupEnv sys) configPath = Inr cfg \<and> config_valid cfg
        \<and> New (Backends cfg) = Inr (h_Registry (pr_handler p))
        \<and> fst (NewVerifier (sy_keylib sys) e (Auth cfg) w) = Inr (h_Verifier (pr_handler p)))
    \<and> reg_wf (h_Registry (pr_handler p)) \<and> proxy_reach (pr_handler p) e (pr_state p) []
    \<and> traffic_ok e (h_Registry (pr_handler p)) (sent w')"
proof -
  from assms(1) obtain cfg verifier w1 reg ob where st:
    "Load (sy_ReadFile sys) (sy_yaml_Unmarshal sys) (sy_LookupEnv sys) configPath = Inr cfg"
    "NewVerifier (sy_keylib sys) e (Auth cfg) w = (Inr verifier, w1)" "New (Backends cfg) = Inr reg"
    "startListeners (Server cfg) (NewHandler verifier reg (Server cfg) (Auth cfg)) ob
       (pr_retry p) (pr_state p) = Some p"
    "warmCatalog e (start_state (NewHandler verifier reg (Server cfg) (Auth cfg))
       ob (30 * minute) (5 * minute) w1) = (pr_retry p, pr_state p)"
    "w' = p_io (pr_state p)"
    by (rule run_Some)
  let ?h = "NewHandler verifier reg (Server cfg) (Auth cfg)"
  have h: "pr_handler p = ?h" using startListeners_handler [OF st(4)] by simp
  have valid: "config_valid cfg" using st(1) Load_valid by blast
  have wf: "reg_wf reg" using New_wf st(3) by blast
  have "list_all startup_request (sent w1)"
    using NewVerifier_startup [of w "sy_keylib sys" e "Auth cfg"] st(2) assms(2) by (simp add: sends_def)
  then have "proxy_reach ?h e (start_state ?h ob (30 * minute) (5 * minute) w1) []" by (rule proxy_reach.start)
  from proxy_reach.warm [OF this] have reach: "proxy_reach ?h e (pr_state p) []"
    using st(5) by (auto simp: warmCatalog_def split: prod.splits)
  have "traffic_ok e reg (sent w')"
    using reach_inv [OF reach] wf st(6) by (simp add: proxy_inv_def)
  with st(1-3) valid wf reach show ?thesis by (auto simp: h)
qed

text \<open>The small configuration with two tenants, started.\<close>

definition example_system :: system where
  "example_system = \<lparr>sy_ReadFile = \<lambda>_. Inr [], sy_yaml_Unmarshal = \<lambda>_. Inr example_config, sy_LookupEnv = [''PA'' \<mapsto> ''pa''],
     sy_keylib = no_keylib, sy_otel = \<lparr>ot_Merge = \<lambda>_ _. None, ot_promexporter = None, ot_Instrument = \<lambda>_. None,
     ot_otlptracegrpc = None\<rparr>, sy_version = ''dev''\<rparr>"

definition example_run :: "(run_error + Process option) \<times> io" where
  "example_run = run example_system demo_env ''config.yaml'' init_io"

lemma example_run_facts:
  "case example_run of
     (Inr (Some p), w) \<Rightarrow> map t_ID (Tenants (h_Registry (pr_handler p))) = [''a'', ''b''] \<and> length (sent w) = 6 \<and> \<not> pr_retry p
   | _ \<Rightarrow> False"
  by code_simp

section \<open>The routes\<close>

lemma wellKnown_facts: "CHR ''/'' \<in> set wellKnown" "wellKnown \<noteq> ''/healthz''" "wellKnown @ x \<noteq> ''/healthz''"
  "''/healthz'' \<noteq> wellKnown" "''/healthz'' \<noteq> wellKnown @ x"
  by (simp_all add: wellKnown_def)

text \<open>The paths for which the model of the routes is that of \<^verbatim>\<open>http.ServeMux\<close>: absolute, clean, and without
  the characters that make a pattern more than a path.\<close>

definition plain_path :: "string \<Rightarrow> bool" where
  "plain_path pat \<longleftrightarrow>
     HasPrefix pat ''/'' \<and> list_all (\<lambda>c. c \<notin> set [CHR '' '', CHR 0x09, CHR ''{'', CHR ''}'', CHR ''%'']) pat
     \<and> \<not> Contains pat ''//'' \<and> \<not> Contains (pat @ ''/'') ''/./'' \<and> \<not> Contains (pat @ ''/'') ''/../''"

lemma plain_slash: "plain_path pat \<Longrightarrow> CHR ''/'' \<in> set pat"
  by (auto simp: plain_path_def HasPrefix_iff)

text \<open>The routes of the data listener, for a plain configured path: registering them panics exactly when
  that path is one of the two fixed routes; otherwise the endpoint, the metadata document under both of
  its addresses and the health check are each served at their own path, whatever the configured path
  is, \<open>/\<close> included.\<close>

lemma data_routes_served:
  assumes "plain_path (Path sc)"
  shows "case mux_Handle_all (data_routes sc) [] of
     None \<Rightarrow> Path sc \<in> {wellKnown, ''/healthz''}
   | Some m \<Rightarrow>
       Path sc \<notin> {wellKnown, ''/healthz''}
       \<and> mux_match m (Path sc) = Some Endpoint \<and> mux_match m wellKnown = Some ProtectedResourceMetadata
       \<and> mux_match m (wellKnown @ Path sc) = Some ProtectedResourceMetadata \<and> mux_match m ''/healthz'' = Some Healthz"
  using wellKnown_facts plain_slash [OF assms]
  by (auto simp: data_routes_def mux_Handle_def mux_match_def split: option.split)

lemma data_routes_served_example:
  "\<exists>m. mux_Handle_all (data_routes \<lparr>Listen = [], Path = ''/'', ExternalURL = []\<rparr>) [] = Some m
     \<and> mux_match m ''/'' = Some Endpoint \<and> mux_match m (wellKnown @ ''/'') = Some ProtectedResourceMetadata
     \<and> mux_match m ''/anything'' = Some Endpoint"
proof -
  let ?sc = "\<lparr>Listen = [], Path = ''/'', ExternalURL = []\<rparr>"
  have plain: "plain_path (Path ?sc)" by code_simp
  have "Path ?sc \<notin> {wellKnown, ''/healthz''}" by code_simp
  with data_routes_served [OF plain] obtain m where m: "mux_Handle_all (data_routes ?sc) [] = Some m"
    and "mux_match m ''/'' = Some Endpoint" "mux_match m (wellKnown @ ''/'') = Some ProtectedResourceMetadata"
    by (auto split: option.splits)
  moreover have "map_option (\<lambda>m. mux_match m ''/anything'') (mux_Handle_all (data_routes ?sc) []) = Some (Some Endpoint)"
    by code_simp
  ultimately show ?thesis by auto
qed

text \<open>A configured path without any slash makes start-up panic; the validation of the configuration does not
  look at the path.\<close>

lemma slashless_path_panics: "CHR ''/'' \<notin> set (Path sc) \<Longrightarrow> mux_Handle_all (data_routes sc) [] = None"
  by (simp add: data_routes_def mux_Handle_def)

end
