(* ===== verification/Lifecycle.thy ===== *)
theory Lifecycle
  imports Wiring Races
begin

text \<open>
  The life of the process after start-up (\<^verbatim>\<open>cmd/mt-mcp-proxy/main.go\<close>): the main goroutine in
  \<^verbatim>\<open>srv.ListenAndServe\<close>, the goroutine that waits for a signal and shuts the servers down, the one that
  retries the warming of the catalogs, and the handlers of requests, each with steps of its own that
  interleave in any order, until the process exits. Of \<^verbatim>\<open>http.Server\<close> the documented behaviour is modelled:
  \<^verbatim>\<open>Shutdown\<close> first closes the listeners, which makes \<^verbatim>\<open>ListenAndServe\<close> return \<^verbatim>\<open>ErrServerClosed\<close> at once,
  and then waits until no request is being handled or its deadline has passed. Of the run time: a map that
  is read while it is written to ends the process.
\<close>

section \<open>The state\<close>

text \<open>The main goroutine: about to listen, accepting connections, returned from \<^verbatim>\<open>ListenAndServe\<close> with an
  error or without (then \<^verbatim>\<open>run\<close> runs its deferred calls), exited.\<close>

datatype main_pc = Listening | Accepting | Returned "string option" | Exited nat

text \<open>The goroutine of the shutdown: waiting for the signal, in \<^verbatim>\<open>srv.Shutdown\<close>, in \<^verbatim>\<open>obsSrv.Shutdown\<close>, done.\<close>

datatype stop_pc = Waiting | Draining | DrainingObs | Stopped

primrec stop_phase :: "stop_pc \<Rightarrow> nat" where
  "stop_phase Waiting = 0" | "stop_phase Draining = 1" | "stop_phase DrainingObs = 2" | "stop_phase Stopped = 3"

lemma stop_phase_inject: "stop_phase x = stop_phase y \<longleftrightarrow> x = y"
  by (cases x; cases y) simp_all

instantiation stop_pc :: linorder
begin

definition less_eq_stop_pc :: "stop_pc \<Rightarrow> stop_pc \<Rightarrow> bool" where
  "less_eq_stop_pc x y \<longleftrightarrow> stop_phase x \<le> stop_phase y"

definition less_stop_pc :: "stop_pc \<Rightarrow> stop_pc \<Rightarrow> bool" where
  "less_stop_pc x y \<longleftrightarrow> stop_phase x < stop_phase y"

instance
  by intro_classes (auto simp: less_eq_stop_pc_def less_stop_pc_def stop_phase_inject)

end

record Life =
  lf_proc :: Process
  lf_routes :: "(Arrival \<times> route_pc) list"   \<comment> \<open>the calls being admitted\<close>
  lf_calls :: "(Call \<times> pc) list"   \<comment> \<open>the calls being handled\<close>
  lf_signal :: bool                \<comment> \<open>the context is done\<close>
  lf_main :: main_pc
  lf_stop :: stop_pc
  lf_obs :: bool                   \<comment> \<open>the metrics listener is open, or about to be\<close>

definition start_life :: "Process \<Rightarrow> Life" where
  "start_life p = \<lparr>lf_proc = p, lf_routes = [], lf_calls = [], lf_signal = False, lf_main = Listening, lf_stop = Waiting,
     lf_obs = (pr_obs p \<noteq> None)\<rparr>"

datatype life_event =
    Listen_returns "string option"          \<comment> \<open>binding the address succeeds or fails\<close>
  | Request jwtlib string hreq             \<comment> \<open>a request, by its path, handled without interruption\<close>
  | Arrive jwtlib hreq jsonRPCRequest hresp \<comment> \<open>a call that goes on in small steps\<close>
  | Route_step nat
  | Call_step nat
  | Refresh nat                            \<comment> \<open>a listing in progress looks one catalog up\<close>
  | Task nat
  | Retry_tick
  | Retry_stop
  | Signal
  | Close_listeners
  | Accept_fails string
  | Accept_closed
  | Drained
  | Deadline
  | Obs_fails string                       \<comment> \<open>the metrics listener does not start, or fails\<close>
  | Obs_closed
  | Map_race nat nat                       \<comment> \<open>a read and a write of one map at once\<close>
  | Leave "string option" "string option"   \<comment> \<open>the results of the providers' shutdowns\<close>

definition closing :: "Life \<Rightarrow> bool" where
  "closing s \<longleftrightarrow> lf_stop s \<noteq> Waiting"

definition route_done :: "Handler \<Rightarrow> Arrival \<times> route_pc \<Rightarrow> bool" where
  "route_done h x \<longleftrightarrow> route_left h (fst x) (snd x) = 0"

definition call_done :: "Call \<times> pc \<Rightarrow> bool" where
  "call_done x = (case snd x of Done _ \<Rightarrow> True | _ \<Rightarrow> False)"

abbreviation proc_state :: "Life \<Rightarrow> Proxy" where
  "proc_state s \<equiv> pr_state (lf_proc s)"

abbreviation with_state :: "Proxy \<Rightarrow> Life \<Rightarrow> Life" where
  "with_state x s \<equiv> s\<lparr>lf_proc := (lf_proc s)\<lparr>pr_state := x\<rparr>\<rparr>"

section \<open>The steps\<close>

text \<open>\<^verbatim>\<open>main\<close>: an error of the start-up exits with 1, a panic with the 2 of Go's run time; and the exit code of
  what \<^verbatim>\<open>run\<close> returns after that. The shutdown of the providers is only logged.\<close>

definition start_main :: "run_error + Process option \<Rightarrow> nat + Life" where
  "start_main x = (case x of Inl _ \<Rightarrow> Inl 1 | Inr None \<Rightarrow> Inl 2 | Inr (Some p) \<Rightarrow> Inr (start_life p))"

definition exit_code :: "string option \<Rightarrow> nat" where
  "exit_code err = (case err of None \<Rightarrow> 0 | Some _ \<Rightarrow> 1)"

definition main_step :: "life_event \<Rightarrow> Life \<Rightarrow> Life option" where
  "main_step ev s =
     (case (ev, lf_main s) of
        (Listen_returns err, Listening) \<Rightarrow>
          Some (s\<lparr>lf_main := if closing s then Returned None else if err = None then Accepting else Returned err\<rparr>)
      | (Accept_fails err, Accepting) \<Rightarrow> if closing s then None else Some (s\<lparr>lf_main := Returned (Some err)\<rparr>)
      | (Accept_closed, Accepting) \<Rightarrow> if closing s then Some (s\<lparr>lf_main := Returned None\<rparr>) else None
      | (Leave tracerErr meterErr, Returned err) \<Rightarrow>
          (let logged = Shutdown tracerErr meterErr (Some (p_obs (proc_state s))) in Some (s\<lparr>lf_main := Exited (exit_code err)\<rparr>))
      | _ \<Rightarrow> None)"

text \<open>The goroutine of the shutdown: \<^verbatim>\<open>srv.Shutdown\<close> returns when every request is handled or at its deadline;
  then the metrics server is shut down, if there is one, which closes its listener. That listener has a
  goroutine of its own, which ends when it fails; nothing else notices.\<close>

definition drained :: "Life \<Rightarrow> Life" where
  "drained s = s\<lparr>lf_stop := if pr_obs (lf_proc s) = None then Stopped else DrainingObs, lf_obs := False\<rparr>"

definition obs_step :: "life_event \<Rightarrow> Life \<Rightarrow> Life option" where
  "obs_step ev s = (case ev of Obs_fails _ \<Rightarrow> if lf_obs s then Some (s\<lparr>lf_obs := False\<rparr>) else None | _ \<Rightarrow> None)"

definition stop_step :: "life_event \<Rightarrow> Life \<Rightarrow> Life option" where
  "stop_step ev s =
     (case (ev, lf_stop s) of
        (Close_listeners, Waiting) \<Rightarrow> if lf_signal s then Some (s\<lparr>lf_stop := Draining\<rparr>) else None
      | (Drained, Draining) \<Rightarrow> 
          if list_all (route_done (pr_handler (lf_proc s))) (lf_routes s) \<and> list_all call_done (lf_calls s) then Some (drained s) else None
      | (Deadline, Draining) \<Rightarrow> Some (drained s)
      | (Obs_closed, DrainingObs) \<Rightarrow> Some (s\<lparr>lf_stop := Stopped\<rparr>)
      | _ \<Rightarrow> None)"

text \<open>The goroutine of the retries: a tick, or the end of the context.\<close>

definition retry_step :: "env \<Rightarrow> life_event \<Rightarrow> Life \<Rightarrow> Life option" where
  "retry_step e ev s =
     (case ev of
        Retry_tick \<Rightarrow> if pr_retry (lf_proc s) then Some (s\<lparr>lf_proc := retryWarm e (lf_proc s)\<rparr>) else None
      | Retry_stop \<Rightarrow> if pr_retry (lf_proc s) \<and> lf_signal s then Some (s\<lparr>lf_proc := (lf_proc s)\<lparr>pr_retry := False\<rparr>\<rparr>) else None
      | _ \<Rightarrow> None)"

definition recorded :: "ToolCallAttrs \<Rightarrow> Proxy \<Rightarrow> Proxy" where
  "recorded out x = x\<lparr>p_obs := RecordToolCall out (p_obs x)\<rparr>"

text \<open>The data listener and the goroutines it starts. New requests come in only while it is open.\<close>

definition serve_step :: "env \<Rightarrow> life_event \<Rightarrow> Life \<Rightarrow> Life option" where
  "serve_step e ev s =
     (case ev of
        Request lib path r \<Rightarrow>
          if lf_main s = Accepting \<and> \<not> closing s then Some (s\<lparr>lf_proc := snd (serve e lib path r (lf_proc s))\<rparr>) else None
      | Arrive lib r req w \<Rightarrow>
          if lf_main s = Accepting \<and> \<not> closing s
          then Some (case arrive (pr_handler (lf_proc s)) e lib r req w of
                       Inl (resp, out) \<Rightarrow> with_state (recorded out (proc_state s)) s
                     | Inr x \<Rightarrow> s\<lparr>lf_routes := lf_routes s @ [x]\<rparr>)
          else None
      | Route_step i \<Rightarrow>
          if i < length (lf_routes s) \<and> \<not> route_done (pr_handler (lf_proc s)) (lf_routes s ! i)
          then Some (case lf_routes s ! i of (a, pc) \<Rightarrow>
                 (let pc' = route_step (pr_handler (lf_proc s)) e a pc (p_catalog (proc_state s));
                      s1 = s\<lparr>lf_routes := (lf_routes s)[i := (a, pc')]\<rparr>
                  in case pc' of
                       Routed c \<Rightarrow> s1\<lparr>lf_calls := lf_calls s @ [(c, Lookup)]\<rparr>
                     | Answered resp out \<Rightarrow> with_state (recorded out (proc_state s)) s1
                     | _ \<Rightarrow> s1))
          else None
      | Call_step i \<Rightarrow>
          if i < length (lf_calls s)
          then (case lf_calls s ! i of (c, pc) \<Rightarrow>
                  (case call_step e c pc (proc_state s) of (pc', x) \<Rightarrow>
                     Some (with_state x (s\<lparr>lf_calls := (lf_calls s)[i := (c, pc')]\<rparr>))))
          else None
      | Refresh i \<Rightarrow>
          if i < length (unique (p_catalog (proc_state s)))
          then (case catalogGet e i (p_catalog (proc_state s)) (p_io (proc_state s)) of (_, cat, io) \<Rightarrow>
                  Some (with_state ((proc_state s)\<lparr>p_catalog := cat, p_io := io\<rparr>) s))
          else None
      | Task i \<Rightarrow> Some (with_state (run_task e i (proc_state s)) s)
      | _ \<Rightarrow> None)"

text \<open>\<^verbatim>\<open>Session.BackendSID\<close> reads the map of a session after \<^verbatim>\<open>Store.Get\<close> has released the lock, and
  \<^verbatim>\<open>Store.SetBackendSID\<close> writes to it under the lock. A call that looks its session up and one that records a
  backend session can be in the same map at the same time when their session is the same. When the run
  time notices, it ends the process with exit code 2, and nothing can recover from that.\<close>

abbreviation session_header :: "Call \<Rightarrow> string" where
  "session_header c \<equiv> Header_Get (hheaders (c_request c)) mcpSessionHeader"

fun same_map :: "env \<Rightarrow> Call \<times> pc \<Rightarrow> Call \<times> pc \<Rightarrow> Proxy \<Rightarrow> bool" where
  "same_map e (c, Lookup) (d, Bind sid) s \<longleftrightarrow>
     \<not> Stateless (t_Backend (c_tenant c)) \<and> session_header c = session_header d
     \<and> fst (Get e (session_header c) (p_sessions s) (p_io s)) \<noteq> None"
| "same_map e _ _ s \<longleftrightarrow> False"

definition fatal_step :: "env \<Rightarrow> life_event \<Rightarrow> Life \<Rightarrow> Life option" where
  "fatal_step e ev s =
     (case ev of
        Map_race i j \<Rightarrow>
          if i < length (lf_calls s) \<and> j < length (lf_calls s) \<and> same_map e (lf_calls s ! i) (lf_calls s ! j) (proc_state s)
          then Some (s\<lparr>lf_main := Exited 2\<rparr>) else None
      | _ \<Rightarrow> None)"

text \<open>One event; \<open>None\<close> when it cannot happen. Nothing happens once the process has exited.\<close>

definition life_step :: "env \<Rightarrow> life_event \<Rightarrow> Life \<Rightarrow> Life option" where
  "life_step e ev s =
     (case lf_main s of
        Exited _ \<Rightarrow> None
      | _ \<Rightarrow>
          (case ev of
             Signal \<Rightarrow> Some (s\<lparr>lf_signal := True\<rparr>)
           | Listen_returns _ \<Rightarrow> main_step ev s | Accept_fails _ \<Rightarrow> main_step ev s | Accept_closed \<Rightarrow> main_step ev s
           | Leave _ _ \<Rightarrow> main_step ev s
           | Close_listeners \<Rightarrow> stop_step ev s | Drained \<Rightarrow> stop_step ev s | Deadline \<Rightarrow> stop_step ev s | Obs_closed \<Rightarrow> stop_step ev s
           | Obs_fails _ \<Rightarrow> obs_step ev s | Map_race _ _ \<Rightarrow> fatal_step e ev s
           | Retry_tick \<Rightarrow> retry_step e ev s | Retry_stop \<Rightarrow> retry_step e ev s
           | _ \<Rightarrow> serve_step e ev s))"

fun life_run :: "env \<Rightarrow> life_event list \<Rightarrow> Life \<Rightarrow> Life option" where
  "life_run e [] s = Some s"
| "life_run e (ev # evs) s = (case life_step e ev s of None \<Rightarrow> None | Some s1 \<Rightarrow> life_run e evs s1)"

text \<open>A request to the metrics listener, which is there while it is open; the scrape handler is the Prometheus
  package's.\<close>

definition serve_obs :: "(Observability \<Rightarrow> hresp) \<Rightarrow> string \<Rightarrow> Life \<Rightarrow> hresp option" where
  "serve_obs scrape path s =
     (case pr_obs (lf_proc s) of
        Some (_, m) \<Rightarrow>
          if lf_obs s
          then Some (case mux_match m path of
                       Some Metrics \<Rightarrow> scrape (p_obs (proc_state s)) | Some Healthz \<Rightarrow> healthz | _ \<Rightarrow> not_found)
          else None
      | None \<Rightarrow> None)"

section \<open>Isolation for the whole life\<close>

text \<open>What holds of a process while it lives: its state is reachable, a signal precedes the shutdown, and the way
  it returned explains itself.\<close>

definition admitting :: "env \<Rightarrow> Handler \<Rightarrow> Arrival \<times> route_pc \<Rightarrow> bool" where
  "admitting e h x \<longleftrightarrow>
     (\<exists>lib r req w pc css. arrive h e lib r req w = Inr (fst x, pc) \<and> snd x = route_steps h e (fst x) pc css)"

lemma admitting_arrive: "arrive h e lib r req w = Inr x \<Longrightarrow> admitting e h x"
  unfolding admitting_def by (metis prod.collapse route_steps_simps(1))

lemma admitting_step: "admitting e h (a, pc) \<Longrightarrow> admitting e h (a, route_step h e a pc cs)"
  unfolding admitting_def by (metis fst_conv snd_conv route_steps_simps)

lemma admitting_reach:
  "admitting e h (a, Routed c) \<Longrightarrow> proxy_reach h e s cs \<Longrightarrow> proxy_reach h e s (cs @ [(c, Lookup)])"
  unfolding admitting_def by (auto intro: proxy_reach.admit [OF _ _ sym])

definition life_inv :: "env \<Rightarrow> Handler \<Rightarrow> Life \<Rightarrow> bool" where
  "life_inv e h s \<longleftrightarrow> pr_handler (lf_proc s) = h \<and> proxy_reach h e (proc_state s) (lf_calls s)
     \<and> list_all (admitting e h) (lf_routes s)
     \<and> (closing s \<longrightarrow> lf_signal s) \<and> (lf_main s \<in> {Returned None, Exited 0} \<longrightarrow> closing s)
     \<and> (\<forall>n. lf_main s = Exited n \<longrightarrow> n \<le> 2)"

lemma retryWarm_handler [simp]: "pr_handler (retryWarm e p) = pr_handler p"
  by (simp add: retryWarm_def split: prod.split)

lemma serve_handler [simp]: "pr_handler (snd (serve e lib path r p)) = pr_handler p"
  by (simp add: serve_def split: option.split route.split prod.split)

lemma retryWarm_reach:
  "proxy_reach (pr_handler p) e (pr_state p) cs \<Longrightarrow> proxy_reach (pr_handler p) e (pr_state (retryWarm e p)) cs"
  using proxy_reach.warm [of "pr_handler p" e "pr_state p" cs]
  by (auto simp: retryWarm_def warmCatalog_def split: prod.split)

lemma serve_reach:
  "proxy_reach (pr_handler p) e (pr_state p) cs \<Longrightarrow> proxy_reach (pr_handler p) e (pr_state (snd (serve e lib path r p))) cs"
  using proxy_reach.serve [of "pr_handler p" e "pr_state p" cs lib r]
  by (auto simp: serve_def split: option.split route.split prod.split)

lemma main_step_inv: "life_inv e h s \<Longrightarrow> main_step ev s = Some s' \<Longrightarrow> life_inv e h s'"
  by (auto simp: main_step_def life_inv_def closing_def exit_code_def Let_def
      split: life_event.splits main_pc.splits if_splits option.splits)

lemma stop_step_inv: "life_inv e h s \<Longrightarrow> stop_step ev s = Some s' \<Longrightarrow> life_inv e h s'"
  by (auto simp: stop_step_def drained_def life_inv_def closing_def split: life_event.splits stop_pc.splits if_splits)

lemma obs_step_inv: "life_inv e h s \<Longrightarrow> obs_step ev s = Some s' \<Longrightarrow> life_inv e h s'"
  by (auto simp: obs_step_def life_inv_def closing_def split: life_event.splits if_splits)

lemma fatal_step_inv: "life_inv e h s \<Longrightarrow> fatal_step e ev s = Some s' \<Longrightarrow> life_inv e h s'"
  by (auto simp: fatal_step_def life_inv_def closing_def split: life_event.splits if_splits)

lemma retry_step_inv: "life_inv e h s \<Longrightarrow> retry_step e ev s = Some s' \<Longrightarrow> life_inv e h s'"
  by (auto simp: retry_step_def life_inv_def closing_def intro: retryWarm_reach split: life_event.splits if_splits)

lemma serve_step_inv:
  assumes "life_inv e h s" and "serve_step e ev s = Some s'"
  shows "life_inv e h s'"
proof (cases ev)
  case (Request lib path r)
  with assms show ?thesis
    by (auto simp: serve_step_def life_inv_def closing_def intro: serve_reach split: if_splits)
next
  case (Arrive lib r req w)
  with assms show ?thesis
    by (auto simp: serve_step_def life_inv_def closing_def recorded_def intro: proxy_reach.counted admitting_arrive
        split: if_splits sum.splits)
next
  case (Route_step i)
  obtain a pc where x: "lf_routes s ! i = (a, pc)" by fastforce
  let ?pc = "route_step h e a pc (p_catalog (proc_state s))"
  have h: "pr_handler (lf_proc s) = h" and ok: "list_all (admitting e h) (lf_routes s)"
    and reach: "proxy_reach h e (proc_state s) (lf_calls s)" using assms(1) by (auto simp: life_inv_def)
  from assms(2) Route_step have i: "i < length (lf_routes s)" by (auto simp: serve_step_def split: if_splits)
  with ok x have a: "admitting e h (a, ?pc)" by (metis list_all_length admitting_step)
  with ok i have "list_all (admitting e h) ((lf_routes s)[i := (a, ?pc)])" by (simp add: list_all_length nth_list_update)
  with assms Route_step x h reach a show ?thesis
    by (cases ?pc) (auto simp: serve_step_def life_inv_def closing_def recorded_def Let_def
        intro: proxy_reach.counted admitting_reach split: if_splits)
next
  case (Call_step i)
  obtain c pc where c: "lf_calls s ! i = (c, pc)" by fastforce
  obtain pc' x where x: "call_step e c pc (proc_state s) = (pc', x)" by fastforce
  from Call_step assms(2) c x have i: "i < length (lf_calls s)"
    and s': "s' = with_state x (s\<lparr>lf_calls := (lf_calls s)[i := (c, pc')]\<rparr>)"
    by (auto simp: serve_step_def split: if_splits)
  have "proxy_reach h e (proc_state s) (lf_calls s)" using assms(1) by (simp add: life_inv_def)
  from proxy_reach.step [OF this i c x] assms(1) show ?thesis by (simp add: s' life_inv_def closing_def)
next
  case (Refresh i)
  with assms show ?thesis
    by (auto simp: serve_step_def life_inv_def closing_def intro: proxy_reach.refresh split: if_splits prod.splits)
next
  case (Task i)
  with assms show ?thesis
    by (auto simp: serve_step_def life_inv_def closing_def intro: proxy_reach.task)
qed (use assms in \<open>simp_all add: serve_step_def\<close>)

lemma life_step_cases [consumes 1, case_names signal main stop retry obs fatal serve]:
  assumes "life_step e ev s = Some s'"
  obtains "ev = Signal" "s' = s\<lparr>lf_signal := True\<rparr>" | "main_step ev s = Some s'" | "stop_step ev s = Some s'"
    | "retry_step e ev s = Some s'" | "obs_step ev s = Some s'" | "fatal_step e ev s = Some s'" | "serve_step e ev s = Some s'"
  using assms by (cases ev) (auto simp: life_step_def split: main_pc.splits)

lemma serve_step_frame:
  assumes "serve_step e ev s = Some s'"
  shows "lf_main s' = lf_main s" and "lf_stop s' = lf_stop s" and "lf_signal s' = lf_signal s" and "lf_obs s' = lf_obs s"
  using assms by (auto simp: serve_step_def Let_def split: life_event.splits if_splits prod.splits sum.splits route_pc.splits)

lemma life_step_inv:
  assumes "life_inv e h s" and "life_step e ev s = Some s'"
  shows "life_inv e h s'"
  using assms(2)
proof (cases rule: life_step_cases)
  case signal
  with assms(1) show ?thesis by (simp add: life_inv_def closing_def)
qed (use assms(1) in \<open>blast intro: main_step_inv stop_step_inv retry_step_inv obs_step_inv fatal_step_inv serve_step_inv\<close>)+

lemma life_run_inv: "life_inv e h s \<Longrightarrow> life_run e evs s = Some s' \<Longrightarrow> life_inv e h s'"
  by (induction evs arbitrary: s) (auto split: option.splits intro: life_step_inv)


text \<open>The small configuration with two tenants is started, serves a request, and is shut down.\<close>

definition example_life :: "Process \<Rightarrow> Life option" where
  "example_life p = life_run demo_env
     [Listen_returns None, Request example_lib ''/healthz'' example_request, Signal, Close_listeners, Accept_closed, Drained,
      Leave None None] (start_life p)"

lemma example_life_facts:
  "case example_run of
     (Inr (Some p), _) \<Rightarrow> (case example_life p of None \<Rightarrow> False | Some s \<Rightarrow> lf_main s = Exited 0 \<and> length (sent (p_io (proc_state s))) = 6)
   | _ \<Rightarrow> False"
  by code_simp


section \<open>The shutdown does not wait\<close>

text \<open>C23. Shutting down abandons the calls that are being handled. From every state in which the process accepts
  requests, whatever calls are in progress and whatever teardowns of backend sessions are pending, the
  following is a run: the signal arrives, \<^verbatim>\<open>srv.Shutdown\<close> closes the listeners, \<^verbatim>\<open>ListenAndServe\<close> returns,
  \<^verbatim>\<open>run\<close> runs its deferred calls and \<^verbatim>\<open>main\<close> exits with 0, although \<^verbatim>\<open>srv.Shutdown\<close>, which would have
  waited up to ten seconds for the calls, has not returned. No call is answered and no teardown made
  after that.\<close>

theorem shutdown_abandons_calls:
  assumes "lf_main s = Accepting" and "lf_stop s = Waiting"
  shows "\<exists>s'. life_run e [Signal, Close_listeners, Accept_closed, Leave tracerErr meterErr] s = Some s'
    \<and> lf_main s' = Exited 0 \<and> lf_stop s' = Draining \<and> lf_routes s' = lf_routes s \<and> lf_calls s' = lf_calls s \<and> proc_state s' = proc_state s
    \<and> (\<forall>ev. life_step e ev s' = None)"
  using assms by (simp add: life_step_def main_step_def stop_step_def closing_def exit_code_def Let_def)

definition busy_life :: "Call \<Rightarrow> Life" where
  "busy_life c = \<lparr>lf_proc = \<lparr>pr_handler = demo_handler, pr_state = demo_state, pr_listen = [], pr_mux = [], pr_obs = None,
     pr_retry = False\<rparr>, lf_routes = [], lf_calls = [(c, Lookup)], lf_signal = False, lf_main = Accepting, lf_stop = Waiting,
     lf_obs = False\<rparr>"

theorem shutdown_abandons_calls_witness:
  "\<exists>c s. begin_call demo_handler quiet_env example_lib example_request demo_call new_resp demo_state = Some c
     \<and> life_run quiet_env [Signal, Close_listeners, Accept_closed, Leave None None] (busy_life c) = Some s
     \<and> lf_main s = Exited 0 \<and> lf_calls s = [(c, Lookup)]"
proof -
  have "begin_call demo_handler quiet_env example_lib example_request demo_call new_resp demo_state \<noteq> None" by code_simp
  then obtain c where c: "begin_call demo_handler quiet_env example_lib example_request demo_call new_resp demo_state = Some c" by blast
  have "lf_main (busy_life c) = Accepting" "lf_stop (busy_life c) = Waiting" by (simp_all add: busy_life_def)
  from shutdown_abandons_calls [OF this, of quiet_env None None] c show ?thesis by (auto simp: busy_life_def)
qed

lemma life_run_append: "life_run e (as @ bs) s = Option.bind (life_run e as s) (life_run e bs)"
  by (induction as arbitrary: s) (auto split: option.split)

text \<open>The shutdown only goes forward, so listeners that are closed stay closed.\<close>

lemma life_step_stop: "life_step e ev s = Some s' \<Longrightarrow> lf_stop s \<le> lf_stop s'"
  by (cases rule: life_step_cases)
    (auto simp: serve_step_frame main_step_def stop_step_def drained_def retry_step_def obs_step_def fatal_step_def less_eq_stop_pc_def
      Let_def split: life_event.splits main_pc.splits stop_pc.splits if_splits option.splits)

lemma life_run_stop: "life_run e evs s = Some s' \<Longrightarrow> lf_stop s \<le> lf_stop s'"
  by (induction evs arbitrary: s) (auto split: option.splits dest: life_step_stop intro: order_trans)

lemma closing_iff: "closing s \<longleftrightarrow> Waiting < lf_stop s"
  by (cases "lf_stop s") (simp_all add: closing_def less_stop_pc_def)

lemma closed_for_good:
  assumes "life_run e (evs @ [ev]) s = Some s'" and "closing s"
  shows "\<forall>lib path r req w. ev \<noteq> Request lib path r \<and> ev \<noteq> Arrive lib r req w"
proof -
  obtain s1 where run: "life_run e evs s = Some s1" and step: "life_step e ev s1 = Some s'"
    using assms(1) by (auto simp: life_run_append split: option.splits bind_splits)
  have "closing s1" using life_run_stop [OF run] assms(2) by (simp add: closing_iff)
  with step show ?thesis by (auto simp: life_step_def serve_step_def split: main_pc.splits)
qed

section \<open>The crash\<close>

text \<open>A call opens and records a backend session only for a tenant of a stateful backend.\<close>

definition opening_stateful :: "Call \<times> pc \<Rightarrow> bool" where
  "opening_stateful x = (case x of (c, pc) \<Rightarrow> (\<exists>sid. pc \<in> {Open, Confirm sid, Bind sid}) \<longrightarrow> \<not> Stateless (t_Backend (c_tenant c)))"

lemma call_step_opening:
  "opening_stateful (c, pc) \<Longrightarrow> opening_stateful (c, fst (call_step e c pc s))"
  by (cases pc) (auto simp: opening_stateful_def split: prod.split option.split sum.split)

lemma life_step_opening:
  assumes "life_step e ev s = Some s'" and "list_all opening_stateful (lf_calls s)"
  shows "list_all opening_stateful (lf_calls s')"
  using assms(1)
proof (cases rule: life_step_cases)
  case serve
  show ?thesis
  proof (cases ev)
    case (Arrive lib r req w)
    with serve assms(2) show ?thesis by (auto simp: serve_step_def split: if_splits sum.splits)
  next
    case (Route_step i)
    with serve assms(2) show ?thesis
      by (auto simp: serve_step_def opening_stateful_def Let_def split: if_splits prod.splits route_pc.splits)
  next
    case (Call_step i)
    obtain c pc where c: "lf_calls s ! i = (c, pc)" by fastforce
    with Call_step serve have i: "i < length (lf_calls s)"
      and s': "lf_calls s' = (lf_calls s)[i := (c, fst (call_step e c pc (proc_state s)))]"
      by (auto simp: serve_step_def split: if_splits prod.splits)
    have "opening_stateful (c, pc)" using assms(2) i c by (metis list_all_length)
    then have "opening_stateful (c, fst (call_step e c pc (proc_state s)))" by (rule call_step_opening)
    with assms(2) i s' show ?thesis by (simp add: list_all_length nth_list_update)
  qed (use serve assms(2) in \<open>auto simp: serve_step_def split: if_splits prod.splits\<close>)
qed (use assms(2) in \<open>auto simp: main_step_def stop_step_def drained_def retry_step_def obs_step_def fatal_step_def Let_def
      split: life_event.splits main_pc.splits stop_pc.splits if_splits option.splits\<close>)

lemma life_run_opening:
  "life_run e evs s = Some s' \<Longrightarrow> list_all opening_stateful (lf_calls s) \<Longrightarrow> list_all opening_stateful (lf_calls s')"
  by (induction evs arbitrary: s) (auto split: option.splits dest: life_step_opening)

lemma crash_step:
  assumes "life_step e ev s = Some s'" and "lf_main s' = Exited 2"
  obtains i j c d sid where "ev = Map_race i j" "i < length (lf_calls s)" "j < length (lf_calls s)"
    "lf_calls s ! i = (c, Lookup)" "lf_calls s ! j = (d, Bind sid)" "session_header c = session_header d"
    "\<not> Stateless (t_Backend (c_tenant c))" "lf_calls s' = lf_calls s"
proof -
  have alive: "lf_main s \<noteq> Exited 2" using assms(1) by (auto simp: life_step_def)
  have "fatal_step e ev s = Some s'"
    using assms(1)
  proof (cases rule: life_step_cases)
    case serve
    with assms(2) alive show ?thesis by (simp add: serve_step_frame)
  qed (use assms(2) alive in \<open>auto simp: main_step_def stop_step_def drained_def retry_step_def obs_step_def exit_code_def Let_def
      split: life_event.splits main_pc.splits stop_pc.splits if_splits option.splits\<close>)
  then obtain i j where ij: "ev = Map_race i j" "i < length (lf_calls s)" "j < length (lf_calls s)" "lf_calls s' = lf_calls s"
    and "same_map e (lf_calls s ! i) (lf_calls s ! j) (proc_state s)"
    by (auto simp: fatal_step_def split: life_event.splits if_splits)
  from this(5) ij that show ?thesis
    by (cases "(e, lf_calls s ! i, lf_calls s ! j, proc_state s)" rule: same_map.cases) auto
qed


text \<open>A client with one session makes two first calls at once.\<close>

definition crash_process :: Process where
  "crash_process = \<lparr>pr_handler = demo_handler, pr_state = race_start, pr_listen = [], pr_mux = [], pr_obs = None, pr_retry = False\<rparr>"

definition crash_events :: "life_event list" where
  "crash_events =
     (let call = Arrive example_lib (demo_post demo_sid []) race_request new_resp
      in [Listen_returns None, call, call, Route_step 0, Route_step 0, Route_step 1, Route_step 1, Call_step 0, Call_step 0, Call_step 0, Map_race 1 0])"


end
